theory Spec2Isabelle
  imports Main "HOL-Library.Sublist"
begin

section \<open>Data model of scripts/copy-issues.go\<close>

text \<open>
  The structs of the program, field by field.  \<open>Issue\<close>, \<open>Label\<close> and \<open>User\<close>
  keep the field names of the source.  \<open>CreateIssueRequest\<close> and \<open>CreateIssueResponse\<close>
  reuse the names \<open>Title\<close>, \<open>Body\<close>, \<open>Labels\<close>, \<open>Number\<close> and \<open>HTMLURL\<close> in the
  source; here their fields carry the prefixes \<open>req_\<close> and \<open>resp_\<close>.
  Go's \<open>int\<close> is modelled as \<open>int\<close> for issue numbers (they are only copied and
  printed) and as \<open>nat\<close> for the counters, loop indices and page numbers, which
  start at 0 or 1 and are only incremented, by at most the number of records received.
\<close>

record Label =
  Name :: string
  Color :: string

record User =
  Login :: string

record Issue =
  Number :: int
  Title :: string
  Body :: string
  State :: string
  Labels :: "Label list"
  User :: User
  HTMLURL :: string

record CreateIssueRequest =
  req_Title :: string
  req_Body :: string
  req_Labels :: "string list"

record CreateIssueResponse =
  resp_Number :: int
  resp_HTMLURL :: string

definition githubAPIBase :: string where
  "githubAPIBase = ''https://api.github.com''"

definition userAgent :: string where
  "userAgent = ''kongctl-issue-copier/1.0''"

definition perPage :: nat where
  "perPage = 100"

subsection \<open>Library functions the program calls\<close>

text \<open>
  \<open>strings.Contains s substr\<close>: \<open>substr\<close> occurs in \<open>s\<close> as a contiguous block,
  that is, it is a prefix of some suffix of \<open>s\<close>.
\<close>

fun strings_Contains :: "string \<Rightarrow> string \<Rightarrow> bool" where
  "strings_Contains [] substr = (substr = [])"
| "strings_Contains (c # s) substr = (prefix substr (c # s) \<or> strings_Contains s substr)"

text \<open>\<open>strings.Join elems sep\<close>.\<close>

fun strings_Join :: "string list \<Rightarrow> string \<Rightarrow> string" where
  "strings_Join [] sep = []"
| "strings_Join [e] sep = e"
| "strings_Join (e # e' # es) sep = e @ sep @ strings_Join (e' # es) sep"

text \<open>The verb \<open>%d\<close> of \<open>fmt.Sprintf\<close> on a non-negative integer: its decimal digits.\<close>

definition digit :: "nat \<Rightarrow> char" where
  "digit d = char_of (48 + d)"

fun decimal :: "nat \<Rightarrow> string" where
  "decimal n = (if n < 10 then [digit n] else decimal (n div 10) @ [digit (n mod 10)])"

declare decimal.simps [simp del]

text \<open>
  The JSON text that \<open>json.Marshal\<close> writes, as a syntax tree: only strings, arrays
  and objects occur in a creation request.  An object is the list of its members in
  the order they are written.
\<close>

datatype json =
    JString string
  | JArray "json list"
  | JObject "(string \<times> json) list"

text \<open>
  \<open>json.Marshal\<close> on a \<open>CreateIssueRequest\<close>, following the field tags of the struct
  (lines 39-43): \<open>title\<close> and \<open>body\<close> are always written, \<open>labels\<close> carries
  \<open>omitempty\<close> and is left out when the slice has length 0.  Marshalling a struct
  of strings and a string slice has no failing case, so the error branch after the call
  in \<open>createIssue\<close> is never taken.
\<close>

definition marshalCreateIssueRequest :: "CreateIssueRequest \<Rightarrow> json" where
  "marshalCreateIssueRequest r =
     JObject ([(''title'', JString (req_Title r)), (''body'', JString (req_Body r))]
              @ (if length (req_Labels r) = 0 then []
                 else [(''labels'', JArray (map JString (req_Labels r)))]))"

section \<open>The creation request built by createIssue\<close>

text \<open>
  Lines 195-198: \<open>labelNames := make([]string, len(sourceIssue.Labels))\<close> followed by
  the loop that stores \<open>label.Name\<close> at index \<open>i\<close>.  The slice is allocated with
  empty strings and updated in place, index by index.
\<close>

fun labelNamesLoop :: "nat \<Rightarrow> Label list \<Rightarrow> string list \<Rightarrow> string list" where
  "labelNamesLoop i [] labelNames = labelNames"
| "labelNamesLoop i (label # rest) labelNames =
     labelNamesLoop (i + 1) rest (labelNames[i := Name label])"

definition labelNamesOf :: "Label list \<Rightarrow> string list" where
  "labelNamesOf labels = labelNamesLoop 0 labels (replicate (length labels) [])"

definition newline :: char where
  "newline = CHR 0x0A"

text \<open>
  Lines 191-192: \<open>fmt.Sprintf("_Copied from original issue: %s_\n\n---\n\n%s", ...)\<close>.
\<close>

definition synthBody :: "Issue \<Rightarrow> string" where
  "synthBody sourceIssue =
     ''_Copied from original issue: '' @ HTMLURL sourceIssue @ ''_'' @ [newline, newline]
     @ ''---'' @ [newline, newline] @ Body sourceIssue"

text \<open>Lines 200-204: the struct literal \<open>createReq\<close>.\<close>

definition createReq :: "Issue \<Rightarrow> CreateIssueRequest" where
  "createReq sourceIssue =
     \<lparr> req_Title = Title sourceIssue,
       req_Body = synthBody sourceIssue,
       req_Labels = labelNamesOf (Labels sourceIssue) \<rparr>"

text \<open>\<open>getLabelsString\<close> (lines 242-251), used by the dry-run listing.\<close>

definition getLabelsString :: "Label list \<Rightarrow> string" where
  "getLabelsString labels =
     (if length labels = 0 then ''none''
      else strings_Join (labelNamesOf labels) '', '')"

section \<open>Requests, responses and the trace of a run\<close>

text \<open>
  An \<open>http.Request\<close> as the program fills it: method, URL, the headers in the order
  of the \<open>Header.Set\<close> calls, and the body (absent on a GET).
\<close>

record Request =
  http_Method :: string
  http_URL :: string
  http_Header :: "(string \<times> string) list"
  http_Body :: "json option"

text \<open>
  What \<open>client.Do\<close> gives back: an error (connection failure, timeout), or a response
  with its status code and the bytes of its body.
\<close>

datatype http_result =
    Failure string
  | Response nat string

text \<open>Every error value the program can produce.\<close>

datatype error =
    URLError string
  | TransportError string
  | StatusError nat string
  | DecodeError
  | FetchError error

text \<open>
  The surroundings of the program, which the source reaches through library calls:
  \<^item> \<open>urlError\<close>: the error of \<open>http.NewRequest\<close> for a URL (the methods are the
    constants GET and POST, so only the URL can be rejected), \<open>None\<close> when the
    request is built;
  \<^item> \<open>httpDo\<close>: the answer of \<open>client.Do\<close> to a request, which may depend on how many
    requests the run has sent before it;
  \<^item> \<open>decodeIssues\<close>, \<open>decodeCreated\<close>: \<open>json.NewDecoder(resp.Body).Decode\<close> into
    \<open>[]Issue\<close> and into \<open>CreateIssueResponse\<close>, \<open>None\<close> when decoding fails.
\<close>

record env =
  urlError :: "string \<Rightarrow> string option"
  httpDo :: "nat \<Rightarrow> Request \<Rightarrow> http_result"
  decodeIssues :: "string \<Rightarrow> Issue list option"
  decodeCreated :: "string \<Rightarrow> CreateIssueResponse option"

text \<open>One constructor for each print statement of the source, with its arguments.\<close>

datatype message =
    MsgTokenRequired
  | MsgError error
  | MsgFetching string
  | MsgFound nat
  | MsgDryRunHeader
  | MsgDryRunIssue int string
  | MsgDryRunLabels string
  | MsgDryRunURL string
  | MsgCopyingTo string
  | MsgCopying nat nat int string
  | MsgFailed error
  | MsgCreated int string
  | MsgSummary
  | MsgSuccessfullyCopied nat
  | MsgFailedCount nat
  | MsgTotal nat

text \<open>
  The observable effects of a run, in the order they happen: a line on standard
  output or standard error, a request handed to \<open>client.Do\<close>, a \<open>time.Sleep\<close> of so
  many seconds.
\<close>

datatype event =
    Stdout message
  | Stderr message
  | Do Request
  | Sleep nat

fun requests :: "event list \<Rightarrow> Request list" where
  "requests [] = []"
| "requests (Do r # es) = r # requests es"
| "requests (e # es) = requests es"

definition ncalls :: "event list \<Rightarrow> nat" where
  "ncalls log = length (requests log)"

section \<open>createIssue\<close>

text \<open>The headers both kinds of request carry (lines 145-148 and 217-220).\<close>

definition commonHeaders :: "string \<Rightarrow> (string \<times> string) list" where
  "commonHeaders token =
     [(''Accept'', ''application/vnd.github+json''),
      (''Authorization'', ''Bearer '' @ token),
      (''User-Agent'', userAgent),
      (''X-GitHub-Api-Version'', ''2022-11-28'')]"

text \<open>Lines 211-221: the POST request of \<open>createIssue\<close>.\<close>

definition createURL :: "string \<Rightarrow> string" where
  "createURL repo = githubAPIBase @ ''/repos/'' @ repo @ ''/issues''"

definition createRequest :: "string \<Rightarrow> string \<Rightarrow> Issue \<Rightarrow> Request" where
  "createRequest repo token sourceIssue =
     \<lparr> http_Method = ''POST'',
       http_URL = createURL repo,
       http_Header = commonHeaders token @ [(''Content-Type'', ''application/json'')],
       http_Body = Some (marshalCreateIssueRequest (createReq sourceIssue)) \<rparr>"

text \<open>
  \<open>createIssue\<close> (lines 189-240).  It returns the error or the decoded response,
  together with the trace extended by the request it sent.  When \<open>http.NewRequest\<close>
  fails nothing is sent.
\<close>

definition createIssue ::
  "env \<Rightarrow> string \<Rightarrow> string \<Rightarrow> Issue \<Rightarrow> event list
     \<Rightarrow> (error + CreateIssueResponse) \<times> event list" where
  "createIssue env repo token sourceIssue log =
     (case urlError env (createURL repo) of
        Some e \<Rightarrow> (Inl (URLError e), log)
      | None \<Rightarrow>
          (let req = createRequest repo token sourceIssue;
               log' = log @ [Do req]
           in case httpDo env (ncalls log) req of
                Failure e \<Rightarrow> (Inl (TransportError e), log')
              | Response status body \<Rightarrow>
                  if status \<noteq> 201 then (Inl (StatusError status body), log')
                  else (case decodeCreated env body of
                          None \<Rightarrow> (Inl DecodeError, log')
                        | Some createdIssue \<Rightarrow> (Inr createdIssue, log'))))"

section \<open>fetchOpenIssues\<close>

text \<open>Lines 137-148: the GET request for one page of the listing.\<close>

definition listURL :: "string \<Rightarrow> nat \<Rightarrow> string" where
  "listURL repo page =
     githubAPIBase @ ''/repos/'' @ repo @ ''/issues?state=open&per_page='' @ decimal perPage
     @ ''&page='' @ decimal page"

definition listRequest :: "string \<Rightarrow> string \<Rightarrow> nat \<Rightarrow> Request" where
  "listRequest repo token page =
     \<lparr> http_Method = ''GET'',
       http_URL = listURL repo page,
       http_Header = commonHeaders token,
       http_Body = None \<rparr>"

text \<open>Lines 167-174: the records kept from one page.\<close>

definition isPullRequest :: "Issue \<Rightarrow> bool" where
  "isPullRequest issue = strings_Contains (HTMLURL issue) ''/pull/''"

definition filteredIssues :: "Issue list \<Rightarrow> Issue list" where
  "filteredIssues issues = filter (\<lambda>issue. \<not> isPullRequest issue) issues"

text \<open>
  The \<open>for\<close> loop of lines 136-184, one call per iteration, with \<open>allIssues\<close> and
  \<open>page\<close> as they stand at the start of the iteration.  The loop has no bound of its
  own: against a source that keeps answering with full pages it runs forever, and the
  function is then \<open>None\<close>.
\<close>

partial_function (option) fetchLoop ::
  "env \<Rightarrow> string \<Rightarrow> string \<Rightarrow> Issue list \<Rightarrow> nat \<Rightarrow> event list
     \<Rightarrow> ((error + Issue list) \<times> event list) option" where
  "fetchLoop env repo token allIssues page log =
     (case urlError env (listURL repo page) of
        Some e \<Rightarrow> Some (Inl (URLError e), log)
      | None \<Rightarrow>
          (let req = listRequest repo token page;
               log' = log @ [Do req]
           in case httpDo env (ncalls log) req of
                Failure e \<Rightarrow> Some (Inl (TransportError e), log')
              | Response status body \<Rightarrow>
                  if status \<noteq> 200 then Some (Inl (StatusError status body), log')
                  else (case decodeIssues env body of
                          None \<Rightarrow> Some (Inl DecodeError, log')
                        | Some issues \<Rightarrow>
                            (let allIssues' = allIssues @ filteredIssues issues
                             in if length issues < perPage then Some (Inr allIssues', log')
                                else fetchLoop env repo token allIssues' (page + 1) log'))))"

declare fetchLoop.simps [code]

definition fetchOpenIssues ::
  "env \<Rightarrow> string \<Rightarrow> string \<Rightarrow> event list \<Rightarrow> ((error + Issue list) \<times> event list) option" where
  "fetchOpenIssues env repo token log = fetchLoop env repo token [] 1 log"

section \<open>run and main\<close>

text \<open>The dry-run listing, lines 90-94.\<close>

fun dryRunLoop :: "Issue list \<Rightarrow> event list \<Rightarrow> event list" where
  "dryRunLoop [] log = log"
| "dryRunLoop (issue # rest) log =
     dryRunLoop rest
       (log @ [Stdout (MsgDryRunIssue (Number issue) (Title issue)),
               Stdout (MsgDryRunLabels (getLabelsString (Labels issue))),
               Stdout (MsgDryRunURL (HTMLURL issue))])"

text \<open>
  The copy loop, lines 103-121: \<open>n\<close> is \<open>len(issues)\<close> of the whole slice, \<open>i\<close> the
  index of the first issue still to be copied.  The test \<open>i < len(issues)-1\<close> is
  evaluated on integers, as in the source.
\<close>

fun copyLoop ::
  "env \<Rightarrow> string \<Rightarrow> string \<Rightarrow> nat \<Rightarrow> nat \<Rightarrow> Issue list \<Rightarrow> nat \<Rightarrow> nat \<Rightarrow> event list
     \<Rightarrow> nat \<times> nat \<times> event list" where
  "copyLoop env targetRepo token n i [] successCount errorCount log =
     (successCount, errorCount, log)"
| "copyLoop env targetRepo token n i (issue # rest) successCount errorCount log =
     (let log1 = log @ [Stdout (MsgCopying (i + 1) n (Number issue) (Title issue))]
      in case createIssue env targetRepo token issue log1 of
           (Inl err, log2) \<Rightarrow>
             copyLoop env targetRepo token n (i + 1) rest successCount (errorCount + 1)
               (log2 @ [Stderr (MsgFailed err)])
         | (Inr newIssue, log2) \<Rightarrow>
             (let log3 = log2 @ [Stdout (MsgCreated (resp_Number newIssue) (resp_HTMLURL newIssue))];
                  log4 = (if int i < int n - 1 then log3 @ [Sleep 1] else log3)
              in copyLoop env targetRepo token n (i + 1) rest (successCount + 1) errorCount log4))"

text \<open>
  \<open>run\<close> (lines 75-129): the returned error (\<open>None\<close> for \<open>nil\<close>) and the trace of the
  run; \<open>None\<close> as a whole when the fetch never returns.
\<close>

definition run ::
  "env \<Rightarrow> string \<Rightarrow> string \<Rightarrow> string \<Rightarrow> bool \<Rightarrow> (error option \<times> event list) option" where
  "run env sourceRepo targetRepo token dryRun =
     (case fetchOpenIssues env sourceRepo token [Stdout (MsgFetching sourceRepo)] of
        None \<Rightarrow> None
      | Some (Inl err, log) \<Rightarrow> Some (Some (FetchError err), log)
      | Some (Inr issues, log) \<Rightarrow>
          (let log1 = log @ [Stdout (MsgFound (length issues))]
           in if dryRun
              then Some (None, dryRunLoop issues (log1 @ [Stdout MsgDryRunHeader]))
              else (case copyLoop env targetRepo token (length issues) 0 issues 0 0
                           (log1 @ [Stdout (MsgCopyingTo targetRepo)]) of
                      (successCount, errorCount, log2) \<Rightarrow>
                        Some (None,
                              log2 @ [Stdout MsgSummary,
                                      Stdout (MsgSuccessfullyCopied successCount),
                                      Stdout (MsgFailedCount errorCount),
                                      Stdout (MsgTotal (length issues))]))))"

text \<open>
  \<open>main\<close> (lines 50-73) after \<open>flag.Parse\<close>: the exit status of the process and its
  trace.  Returning from \<open>main\<close> is exit status 0.
\<close>

definition main ::
  "env \<Rightarrow> string \<Rightarrow> string \<Rightarrow> string \<Rightarrow> bool \<Rightarrow> (nat \<times> event list) option" where
  "main env sourceRepo targetRepo token dryRun =
     (if token = [] then Some (1, [Stderr MsgTokenRequired])
      else (case run env sourceRepo targetRepo token dryRun of
              None \<Rightarrow> None
            | Some (Some err, log) \<Rightarrow> Some (1, log @ [Stderr (MsgError err)])
            | Some (None, log) \<Rightarrow> Some (0, log)))"

section \<open>Notions used to state the properties\<close>

text \<open>Projections of a trace: the delays, the announced copy attempts, the POST requests.\<close>

fun sleeps :: "event list \<Rightarrow> nat list" where
  "sleeps [] = []"
| "sleeps (Sleep d # es) = d # sleeps es"
| "sleeps (e # es) = sleeps es"

fun announced :: "event list \<Rightarrow> (nat \<times> nat \<times> int \<times> string) list" where
  "announced [] = []"
| "announced (Stdout (MsgCopying i n num title) # es) = (i, n, num, title) # announced es"
| "announced (e # es) = announced es"

definition posts :: "event list \<Rightarrow> Request list" where
  "posts log = filter (\<lambda>r. http_Method r = ''POST'') (requests log)"

fun isSleep :: "event \<Rightarrow> bool" where
  "isSleep (Sleep d) = True"
| "isSleep e = False"

fun isCreated :: "event \<Rightarrow> bool" where
  "isCreated (Stdout (MsgCreated num url)) = True"
| "isCreated e = False"

fun isFailed :: "event \<Rightarrow> bool" where
  "isFailed (Stderr (MsgFailed err)) = True"
| "isFailed e = False"

fun isCopying :: "event \<Rightarrow> bool" where
  "isCopying (Stdout (MsgCopying i n num title)) = True"
| "isCopying e = False"

text \<open>
  The target creates the issue: the POST for \<open>issue\<close>, sent as request number \<open>k\<close>
  of the run, can be built and is answered with status 201 and a body that decodes.
\<close>

definition created :: "env \<Rightarrow> string \<Rightarrow> string \<Rightarrow> nat \<Rightarrow> Issue \<Rightarrow> bool" where
  "created env repo token k issue =
     (urlError env (createURL repo) = None \<and>
      (case httpDo env k (createRequest repo token issue) of
         Failure e \<Rightarrow> False
       | Response status body \<Rightarrow> status = 201 \<and> decodeCreated env body \<noteq> None))"

text \<open>
  The outcome of each creation, in order, when the first POST is request number \<open>k\<close>
  of the run and each issue takes one request.
\<close>

fun outcomes :: "env \<Rightarrow> string \<Rightarrow> string \<Rightarrow> nat \<Rightarrow> Issue list \<Rightarrow> bool list" where
  "outcomes env repo token k [] = []"
| "outcomes env repo token k (issue # rest) =
     created env repo token k issue # outcomes env repo token (Suc k) rest"

text \<open>
  The source serves the pages \<open>ps\<close>: the listing requests for the pages \<open>page\<close>,
  \<open>page + 1\<close>, ..., sent as requests number \<open>k\<close>, \<open>k + 1\<close>, ... of the run, can be
  built and are answered with status 200 and bodies that decode to the record lists
  \<open>ps\<close>, one after the other.
\<close>

fun serves :: "env \<Rightarrow> string \<Rightarrow> string \<Rightarrow> nat \<Rightarrow> nat \<Rightarrow> Issue list list \<Rightarrow> bool" where
  "serves env repo token k page [] = True"
| "serves env repo token k page (p # ps) =
     (urlError env (listURL repo page) = None \<and>
      (case httpDo env k (listRequest repo token page) of
         Failure e \<Rightarrow> False
       | Response status body \<Rightarrow> status = 200 \<and> decodeIssues env body = Some p) \<and>
      serves env repo token (Suc k) (Suc page) ps)"

text \<open>
  A source that holds the raw records \<open>recs\<close> and serves them in pages of \<open>perPage\<close>:
  page \<open>j + 1\<close> holds the records from position \<open>j * perPage\<close> on, at most
  \<open>perPage\<close> of them.  The pages listed are those up to the first one that is not full;
  when the number of records is a multiple of \<open>perPage\<close> that page is empty.
\<close>

definition paginate :: "'a list \<Rightarrow> 'a list list" where
  "paginate recs =
     map (\<lambda>j. take perPage (drop (j * perPage) recs)) [0 ..< Suc (length recs div perPage)]"

text \<open>
  Where a delay may stand in a trace: \<open>spaced e e'\<close> holds of two consecutive events
  when a delay \<open>e'\<close> comes only after the report of a creation, and a delay \<open>e\<close> is
  followed only by the announcement of another copy attempt.
\<close>

definition spaced :: "event \<Rightarrow> event \<Rightarrow> bool" where
  "spaced e e' = ((isSleep e' \<longrightarrow> isCreated e) \<and> (isSleep e \<longrightarrow> isCopying e'))"

text \<open>The trace of a run that returned, and the success counts a trace reports.\<close>

fun traceOf :: "('a \<times> event list) option \<Rightarrow> event list" where
  "traceOf None = []"
| "traceOf (Some (r, log)) = log"

fun succeededCounts :: "event list \<Rightarrow> nat list" where
  "succeededCounts [] = []"
| "succeededCounts (Stdout (MsgSuccessfullyCopied s) # es) = s # succeededCounts es"
| "succeededCounts (e # es) = succeededCounts es"

subsection \<open>Concrete surroundings for the examples\<close>

text \<open>
  A scripted tracker: request number \<open>k\<close> of the run gets the \<open>k\<close>-th answer of the
  script.  In a listing body every character stands for one record, \<open>i\<close> for an issue and
  \<open>p\<close> for a pull request; a creation answer decodes when its body is \<open>ok\<close>.
\<close>

definition exampleIssue :: Issue where
  "exampleIssue =
     \<lparr> Number = 7, Title = ''seven'', Body = ''hello'', State = ''open'',
       Labels = [], User = \<lparr> Login = ''u'' \<rparr>, HTMLURL = ''https://x/issues/7'' \<rparr>"

definition examplePull :: Issue where
  "examplePull =
     \<lparr> Number = 8, Title = ''eight'', Body = [], State = ''open'',
       Labels = [\<lparr> Name = ''bug'', Color = ''red'' \<rparr>, \<lparr> Name = ''ui'', Color = ''blue'' \<rparr>],
       User = \<lparr> Login = ''u'' \<rparr>, HTMLURL = ''https://x/pull/8'' \<rparr>"

definition exampleDecodeIssues :: "string \<Rightarrow> Issue list option" where
  "exampleDecodeIssues body =
     (if list_all (\<lambda>c. c = CHR ''i'' \<or> c = CHR ''p'') body
      then Some (map (\<lambda>c. if c = CHR ''i'' then exampleIssue else examplePull) body)
      else None)"

definition exampleDecodeCreated :: "string \<Rightarrow> CreateIssueResponse option" where
  "exampleDecodeCreated body =
     (if body = ''ok'' then Some \<lparr> resp_Number = 1, resp_HTMLURL = ''https://y/issues/1'' \<rparr>
      else None)"

definition scripted :: "http_result list \<Rightarrow> env" where
  "scripted script =
     \<lparr> urlError = (\<lambda>url. None),
       httpDo = (\<lambda>k req. if k < length script then script ! k else Failure ''closed''),
       decodeIssues = exampleDecodeIssues,
       decodeCreated = exampleDecodeCreated \<rparr>"

section \<open>Auxiliary facts\<close>

subsection \<open>The request builder\<close>

text \<open>\<open>strings_Contains\<close> is the sublist relation of the list library.\<close>

lemma strings_Contains_sublist: "strings_Contains s substr \<longleftrightarrow> sublist substr s"
  by (induction s) (simp_all add: sublist_Cons_right)

text \<open>The loop that fills \<open>labelNames\<close> computes the names of the labels, in order.\<close>

lemma labelNamesLoop_map:
  "i + length labels = length acc \<Longrightarrow>
   labelNamesLoop i labels acc = take i acc @ map Name labels"
proof (induction labels arbitrary: i acc)
  case Nil
  then show ?case by simp
next
  case (Cons l ls)
  then show ?case by (simp add: take_Suc_conv_app_nth)
qed

lemma labelNamesOf_map: "labelNamesOf labels = map Name labels"
  by (simp add: labelNamesOf_def labelNamesLoop_map)

subsection \<open>Projections of traces\<close>

lemma requests_append: "requests (xs @ ys) = requests xs @ requests ys"
  by (induction xs rule: requests.induct) simp_all

lemma sleeps_append: "sleeps (xs @ ys) = sleeps xs @ sleeps ys"
  by (induction xs rule: sleeps.induct) simp_all

lemma announced_append: "announced (xs @ ys) = announced xs @ announced ys"
  by (induction xs rule: announced.induct) simp_all

lemma posts_append: "posts (xs @ ys) = posts xs @ posts ys"
  by (simp add: posts_def requests_append)

lemma ncalls_append: "ncalls (xs @ ys) = ncalls xs + ncalls ys"
  by (simp add: ncalls_def requests_append)

subsection \<open>The copy loop\<close>

lemma createIssue_created:
  assumes "created env repo token (ncalls log) issue"
  shows "\<exists>c. createIssue env repo token issue log
              = (Inr c, log @ [Do (createRequest repo token issue)])"
  using assms
  by (auto simp: created_def createIssue_def Let_def split: http_result.splits option.splits)

lemma createIssue_failed:
  assumes "\<not> created env repo token (ncalls log) issue"
    and "urlError env (createURL repo) = None"
  shows "\<exists>e. createIssue env repo token issue log
              = (Inl e, log @ [Do (createRequest repo token issue)])"
  using assms
  by (auto simp: created_def createIssue_def Let_def split: http_result.splits option.splits)

lemma createIssue_bad_url:
  assumes "urlError env (createURL repo) = Some e"
  shows "createIssue env repo token issue log = (Inl (URLError e), log)"
  using assms by (simp add: createIssue_def)

lemma created_bad_url:
  "urlError env (createURL repo) = Some e \<Longrightarrow> \<not> created env repo token k issue"
  by (simp add: created_def)

lemma outcomes_bad_url:
  "urlError env (createURL repo) = Some e \<Longrightarrow>
   outcomes env repo token k issues = replicate (length issues) False"
  by (induction issues arbitrary: k) (simp_all add: created_bad_url)


text \<open>One iteration of the copy loop, in each of its three cases.\<close>

lemma copyLoop_step_created:
  assumes "created env repo token (ncalls log) issue"
  shows "\<exists>num url. copyLoop env repo token n i (issue # rest) s f log
           = copyLoop env repo token n (Suc i) rest (Suc s) f
               (log @ [Stdout (MsgCopying (Suc i) n (Number issue) (Title issue)),
                       Do (createRequest repo token issue),
                       Stdout (MsgCreated num url)]
                    @ (if int i < int n - 1 then [Sleep 1] else []))"
proof -
  let ?log1 = "log @ [Stdout (MsgCopying (i + 1) n (Number issue) (Title issue))]"
  have "created env repo token (ncalls ?log1) issue"
    using assms by (simp add: ncalls_def requests_append)
  from createIssue_created [OF this] obtain c :: CreateIssueResponse where
    "createIssue env repo token issue ?log1
       = (Inr c, ?log1 @ [Do (createRequest repo token issue)])" ..
  then have "copyLoop env repo token n i (issue # rest) s f log
           = copyLoop env repo token n (Suc i) rest (Suc s) f
               (log @ [Stdout (MsgCopying (Suc i) n (Number issue) (Title issue)),
                       Do (createRequest repo token issue),
                       Stdout (MsgCreated (resp_Number c) (resp_HTMLURL c))]
                    @ (if int i < int n - 1 then [Sleep 1] else []))"
    by (simp add: Let_def)
  then show ?thesis by blast
qed

lemma copyLoop_step_failed:
  assumes "\<not> created env repo token (ncalls log) issue"
    and "urlError env (createURL repo) = None"
  shows "\<exists>e. copyLoop env repo token n i (issue # rest) s f log
           = copyLoop env repo token n (Suc i) rest s (Suc f)
               (log @ [Stdout (MsgCopying (Suc i) n (Number issue) (Title issue)),
                       Do (createRequest repo token issue),
                       Stderr (MsgFailed e)])"
proof -
  let ?log1 = "log @ [Stdout (MsgCopying (i + 1) n (Number issue) (Title issue))]"
  have "\<not> created env repo token (ncalls ?log1) issue"
    using assms by (simp add: ncalls_def requests_append)
  from createIssue_failed [OF this assms(2)] obtain e where
    "createIssue env repo token issue ?log1
       = (Inl e, ?log1 @ [Do (createRequest repo token issue)])" ..
  then have "copyLoop env repo token n i (issue # rest) s f log
           = copyLoop env repo token n (Suc i) rest s (Suc f)
               (log @ [Stdout (MsgCopying (Suc i) n (Number issue) (Title issue)),
                       Do (createRequest repo token issue),
                       Stderr (MsgFailed e)])"
    by (simp add: Let_def)
  then show ?thesis by blast
qed

lemma copyLoop_step_bad_url:
  assumes "urlError env (createURL repo) = Some e"
  shows "copyLoop env repo token n i (issue # rest) s f log
           = copyLoop env repo token n (Suc i) rest s (Suc f)
               (log @ [Stdout (MsgCopying (Suc i) n (Number issue) (Title issue)),
                       Stderr (MsgFailed (URLError e))])"
  by (simp add: createIssue_bad_url [OF assms] Let_def)

declare copyLoop.simps(2) [simp del]

text \<open>The three cases are exhaustive.\<close>

lemma copyLoop_cases:
  obtains (created) "created env repo token k issue"
  | (failed) "\<not> created env repo token k issue" "urlError env (createURL repo) = None"
  | (bad_url) e where "urlError env (createURL repo) = Some e"
  by (cases "urlError env (createURL repo)") auto

lemma copyLoop_counts:
  "fst (copyLoop env repo token n i issues s f log)
     = s + count_list (outcomes env repo token (ncalls log) issues) True \<and>
   fst (snd (copyLoop env repo token n i issues s f log))
     = f + count_list (outcomes env repo token (ncalls log) issues) False"
proof (induction issues arbitrary: i s f log)
  case Nil
  show ?case by simp
next
  case (Cons issue rest)
  show ?case
  proof (cases rule: copyLoop_cases [of env repo token "ncalls log" issue])
    case created
    from copyLoop_step_created [OF created, of n i rest s f] obtain num url where
      "copyLoop env repo token n i (issue # rest) s f log
         = copyLoop env repo token n (Suc i) rest (Suc s) f
               (log @ [Stdout (MsgCopying (Suc i) n (Number issue) (Title issue)),
                       Do (createRequest repo token issue),
                       Stdout (MsgCreated num url)]
                    @ (if int i < int n - 1 then [Sleep 1] else []))" by blast
    then show ?thesis
      using created by (simp add: Cons.IH ncalls_def requests_append)
  next
    case failed
    from copyLoop_step_failed [OF failed, of n i rest s f] obtain e where
      "copyLoop env repo token n i (issue # rest) s f log
         = copyLoop env repo token n (Suc i) rest s (Suc f)
               (log @ [Stdout (MsgCopying (Suc i) n (Number issue) (Title issue)),
                       Do (createRequest repo token issue),
                       Stderr (MsgFailed e)])" by blast
    then show ?thesis
      using failed by (simp add: Cons.IH ncalls_def requests_append)
  next
    case (bad_url e)
    show ?thesis
      by (simp only: copyLoop_step_bad_url [OF bad_url] Cons.IH outcomes_bad_url [OF bad_url])
         simp
  qed
qed

lemma copyLoop_step:
  "\<exists>mid. copyLoop env repo token n i (issue # rest) s f log
           = copyLoop env repo token n (Suc i) rest
               (if created env repo token (ncalls log) issue then Suc s else s)
               (if created env repo token (ncalls log) issue then f else Suc f)
               (log @ Stdout (MsgCopying (Suc i) n (Number issue) (Title issue)) # mid)
         \<and> requests mid = (if urlError env (createURL repo) = None
                            then [createRequest repo token issue] else [])
         \<and> sleeps mid = (if created env repo token (ncalls log) issue \<and> int i < int n - 1
                          then [1] else [])
         \<and> announced mid = []
         \<and> mid \<noteq> []
         \<and> successively spaced (Stdout (MsgCopying (Suc i) n (Number issue) (Title issue)) # mid)
         \<and> (isSleep (last mid) \<longrightarrow> int i < int n - 1)"
proof (cases rule: copyLoop_cases [of env repo token "ncalls log" issue])
  case created
  from copyLoop_step_created [OF created, of n i rest s f] obtain num url where
    eq: "copyLoop env repo token n i (issue # rest) s f log
         = copyLoop env repo token n (Suc i) rest (Suc s) f
               (log @ [Stdout (MsgCopying (Suc i) n (Number issue) (Title issue)),
                       Do (createRequest repo token issue),
                       Stdout (MsgCreated num url)]
                    @ (if int i < int n - 1 then [Sleep 1] else []))" by blast
  have url: "urlError env (createURL repo) = None"
    using created by (simp add: created_def)
  show ?thesis
    by (rule exI [of _ "[Do (createRequest repo token issue), Stdout (MsgCreated num url)]
                         @ (if int i < int n - 1 then [Sleep 1] else [])"])
       (simp add: eq created url spaced_def)
next
  case failed
  from copyLoop_step_failed [OF failed, of n i rest s f] obtain e where
    eq: "copyLoop env repo token n i (issue # rest) s f log
         = copyLoop env repo token n (Suc i) rest s (Suc f)
               (log @ [Stdout (MsgCopying (Suc i) n (Number issue) (Title issue)),
                       Do (createRequest repo token issue),
                       Stderr (MsgFailed e)])" by blast
  show ?thesis
    by (rule exI [of _ "[Do (createRequest repo token issue), Stderr (MsgFailed e)]"])
       (simp add: eq failed spaced_def)
next
  case (bad_url e)
  show ?thesis
    by (rule exI [of _ "[Stderr (MsgFailed (URLError e))]"])
       (simp add: copyLoop_step_bad_url [OF bad_url] created_bad_url [OF bad_url] bad_url
                  spaced_def)
qed

lemma outcomes_next:
  assumes "requests mid = (if urlError env (createURL repo) = None then [r] else [])"
  shows "outcomes env repo token (ncalls (log @ Stdout m # mid)) rest
           = outcomes env repo token (Suc (ncalls log)) rest"
proof (cases "urlError env (createURL repo)")
  case None
  with assms show ?thesis by (simp add: ncalls_def requests_append)
next
  case (Some e)
  then show ?thesis by (simp add: outcomes_bad_url)
qed

lemma outcomes_Nil_iff: "outcomes env repo token k issues = [] \<longleftrightarrow> issues = []"
  by (cases issues) simp_all

lemma copyLoop_requests:
  "requests (snd (snd (copyLoop env repo token n i issues s f log)))
     = requests log @ (if urlError env (createURL repo) = None
                       then map (createRequest repo token) issues else [])"
proof (induction issues arbitrary: i s f log)
  case Nil
  show ?case by simp
next
  case (Cons issue rest)
  from copyLoop_step [of env repo token n i issue rest s f log]
  obtain mid where
    eq: "copyLoop env repo token n i (issue # rest) s f log
           = copyLoop env repo token n (Suc i) rest
               (if created env repo token (ncalls log) issue then Suc s else s)
               (if created env repo token (ncalls log) issue then f else Suc f)
               (log @ Stdout (MsgCopying (Suc i) n (Number issue) (Title issue)) # mid)"
    and reqs: "requests mid = (if urlError env (createURL repo) = None
                            then [createRequest repo token issue] else [])"
    by blast
  show ?case
    by (simp only: eq Cons.IH) (simp add: requests_append reqs)
qed

lemma copyLoop_announced:
  "announced (snd (snd (copyLoop env repo token n i issues s f log)))
     = announced log
       @ map (\<lambda>(j, issue). (Suc j, n, Number issue, Title issue)) (enumerate i issues)"
proof (induction issues arbitrary: i s f log)
  case Nil
  show ?case by simp
next
  case (Cons issue rest)
  from copyLoop_step [of env repo token n i issue rest s f log]
  obtain mid where
    eq: "copyLoop env repo token n i (issue # rest) s f log
           = copyLoop env repo token n (Suc i) rest
               (if created env repo token (ncalls log) issue then Suc s else s)
               (if created env repo token (ncalls log) issue then f else Suc f)
               (log @ Stdout (MsgCopying (Suc i) n (Number issue) (Title issue)) # mid)"
    and ann: "announced mid = []"
    by blast
  show ?case
    by (simp only: eq Cons.IH) (simp add: announced_append ann)
qed

lemma copyLoop_sleeps:
  assumes "i + length issues = n"
  shows "sleeps (snd (snd (copyLoop env repo token n i issues s f log)))
     = sleeps log
       @ replicate (count_list (butlast (outcomes env repo token (ncalls log) issues)) True) 1"
  using assms
proof (induction issues arbitrary: i s f log)
  case Nil
  show ?case by simp
next
  case (Cons issue rest)
  from copyLoop_step [of env repo token n i issue rest s f log]
  obtain mid where
    eq: "copyLoop env repo token n i (issue # rest) s f log
           = copyLoop env repo token n (Suc i) rest
               (if created env repo token (ncalls log) issue then Suc s else s)
               (if created env repo token (ncalls log) issue then f else Suc f)
               (log @ Stdout (MsgCopying (Suc i) n (Number issue) (Title issue)) # mid)"
    and reqs: "requests mid = (if urlError env (createURL repo) = None
                            then [createRequest repo token issue] else [])"
    and sl: "sleeps mid = (if created env repo token (ncalls log) issue \<and> int i < int n - 1
                          then [1] else [])"
    by blast
  have more: "int i < int n - 1 \<longleftrightarrow> rest \<noteq> []"
    using Cons.prems by auto
  have nxt: "Suc i + length rest = n"
    using Cons.prems by simp
  show ?case
    by (simp only: eq Cons.IH [OF nxt] outcomes_next [OF reqs])
       (simp add: sleeps_append sl more outcomes_Nil_iff replicate_app_Cons_same)
qed

lemma copyLoop_spaced:
  assumes "i + length issues = n"
    and "successively spaced log"
    and "issues = [] \<longrightarrow> log = [] \<or> \<not> isSleep (last log)"
  shows "successively spaced (snd (snd (copyLoop env repo token n i issues s f log))) \<and>
         (snd (snd (copyLoop env repo token n i issues s f log)) = [] \<or>
          \<not> isSleep (last (snd (snd (copyLoop env repo token n i issues s f log)))))"
  using assms
proof (induction issues arbitrary: i s f log)
  case Nil
  then show ?case by simp
next
  case (Cons issue rest)
  let ?a = "Stdout (MsgCopying (Suc i) n (Number issue) (Title issue))"
  from copyLoop_step [of env repo token n i issue rest s f log]
  obtain mid where
    eq: "copyLoop env repo token n i (issue # rest) s f log
           = copyLoop env repo token n (Suc i) rest
               (if created env repo token (ncalls log) issue then Suc s else s)
               (if created env repo token (ncalls log) issue then f else Suc f)
               (log @ ?a # mid)"
    and ne: "mid \<noteq> []"
    and sp: "successively spaced (?a # mid)"
    and lst: "isSleep (last mid) \<longrightarrow> int i < int n - 1"
    by blast
  have nxt: "Suc i + length rest = n"
    using Cons.prems by simp
  have 1: "successively spaced (log @ ?a # mid)"
    using Cons.prems(2) sp by (simp add: successively_append_iff spaced_def)
  have 2: "rest = [] \<longrightarrow> log @ ?a # mid = [] \<or> \<not> isSleep (last (log @ ?a # mid))"
    using lst ne Cons.prems(1) by auto
  show ?case
    by (simp only: eq) (rule Cons.IH [OF nxt 1 2])
qed

lemma successively_nth:
  "successively P xs \<longleftrightarrow> (\<forall>p. Suc p < length xs \<longrightarrow> P (xs ! p) (xs ! Suc p))"
proof (induction P xs rule: successively.induct)
  case (3 P x y xs)
  show ?case
  proof
    assume a: "successively P (x # y # xs)"
    show "\<forall>p. Suc p < length (x # y # xs) \<longrightarrow> P ((x # y # xs) ! p) ((x # y # xs) ! Suc p)"
    proof (intro allI impI)
      fix p assume "Suc p < length (x # y # xs)"
      then show "P ((x # y # xs) ! p) ((x # y # xs) ! Suc p)"
        using a 3 by (cases p) auto
    qed
  next
    assume a: "\<forall>p. Suc p < length (x # y # xs) \<longrightarrow> P ((x # y # xs) ! p) ((x # y # xs) ! Suc p)"
    from a [rule_format, of 0] have "P x y" by simp
    moreover have "\<forall>p. Suc p < length (y # xs) \<longrightarrow> P ((y # xs) ! p) ((y # xs) ! Suc p)"
    proof (intro allI impI)
      fix p assume "Suc p < length (y # xs)"
      with a [rule_format, of "Suc p"] show "P ((y # xs) ! p) ((y # xs) ! Suc p)" by simp
    qed
    ultimately show "successively P (x # y # xs)" using 3 by simp
  qed
qed simp_all

lemma successively_no_sleep:
  "\<forall>e \<in> set xs. \<not> isSleep e \<Longrightarrow> successively spaced xs"
proof (induction xs)
  case Nil
  show ?case by simp
next
  case (Cons a xs)
  then show ?case by (cases xs) (simp_all add: spaced_def)
qed

subsection \<open>The fetch loop\<close>

lemma filteredIssues_append:
  "filteredIssues (xs @ ys) = filteredIssues xs @ filteredIssues ys"
  by (simp add: filteredIssues_def)

lemma upt_shift: "[page ..< page + Suc k] = page # [Suc page ..< Suc page + k]"
proof -
  have "page < page + Suc k" by simp
  from upt_conv_Cons [OF this] show ?thesis by (simp del: upt_Suc)
qed

lemma gets_shift:
  "(log @ [Do (listRequest repo token page)])
     @ map (\<lambda>j. Do (listRequest repo token j)) [Suc page ..< Suc page + k]
   = log @ map (\<lambda>j. Do (listRequest repo token j)) [page ..< page + Suc k]"
  by (simp only: upt_shift) simp

lemma gets_shift_plus:
  "(log @ [Do (listRequest repo token page)])
     @ map (\<lambda>j. Do (listRequest repo token j)) [page + 1 ..< page + 1 + k]
   = log @ map (\<lambda>j. Do (listRequest repo token j)) [page ..< page + Suc k]"
  using gets_shift [of log repo token page k] by (simp only: Suc_eq_plus1)

lemma fetchLoop_serves:
  assumes "serves env repo token (ncalls log) page ps"
    and "ps \<noteq> []"
    and "\<forall>p \<in> set (butlast ps). perPage \<le> length p"
    and "length (last ps) < perPage"
  shows "fetchLoop env repo token acc page log
           = Some (Inr (acc @ filteredIssues (concat ps)),
                   log @ map (\<lambda>j. Do (listRequest repo token j)) [page ..< page + length ps])"
  using assms
proof (induction ps arbitrary: acc page log)
  case Nil
  then show ?case by simp
next
  case (Cons p ps)
  from Cons.prems(1) obtain body where
    url: "urlError env (listURL repo page) = None" and
    resp: "httpDo env (ncalls log) (listRequest repo token page) = Response 200 body" and
    dec: "decodeIssues env body = Some p" and
    rest: "serves env repo token (Suc (ncalls log)) (Suc page) ps"
    by (auto split: http_result.splits)
  show ?case
  proof (cases "ps = []")
    case True
    with Cons.prems(4) have "length p < perPage" by simp
    then show ?thesis
      using url resp dec True
      by (subst fetchLoop.simps) (simp add: Let_def)
  next
    case False
    with Cons.prems(3) have full: "\<not> length p < perPage" by auto
    let ?log' = "log @ [Do (listRequest repo token page)]"
    have calls: "ncalls ?log' = Suc (ncalls log)"
      by (simp add: ncalls_def requests_append)
    have ih: "fetchLoop env repo token (acc @ filteredIssues p) (Suc page) ?log'
           = Some (Inr ((acc @ filteredIssues p) @ filteredIssues (concat ps)),
                   ?log' @ map (\<lambda>j. Do (listRequest repo token j))
                      [Suc page ..< Suc page + length ps])"
      using Cons.prems False rest by (intro Cons.IH) (auto simp: calls)
    have "fetchLoop env repo token acc page log
            = fetchLoop env repo token (acc @ filteredIssues p) (Suc page) ?log'"
      using url resp dec full
      by (subst fetchLoop.simps) (simp add: Let_def)
    also note ih
    finally show ?thesis
      by (simp only: gets_shift) (simp add: filteredIssues_append)
  qed
qed

lemma fetchLoop_log:
  assumes "fetchLoop env repo token acc page log = Some y"
  shows "\<exists>k. snd y = log @ map (\<lambda>j. Do (listRequest repo token j)) [page ..< page + k]"
  using assms
proof (induct rule: fetchLoop.raw_induct [rotated 1, consumes 1, case_names step])
  case (step f env repo token allIssues page log y)
  show ?case
  proof (cases "urlError env (listURL repo page)")
    case (Some e)
    with step(2) have "snd y = log @ map (\<lambda>j. Do (listRequest repo token j)) [page ..< page + 0]"
      by auto
    then show ?thesis by (rule exI)
  next
    case None
    let ?log' = "log @ [Do (listRequest repo token page)]"
    have one: "?log' = log @ map (\<lambda>j. Do (listRequest repo token j)) [page ..< page + Suc 0]"
      by simp
    show ?thesis
    proof (cases "httpDo env (ncalls log) (listRequest repo token page)")
      case (Failure e)
      with step(2) None have "snd y = ?log'" by (auto simp: Let_def)
      with one have "snd y = log @ map (\<lambda>j. Do (listRequest repo token j)) [page ..< page + Suc 0]"
        by simp
      then show ?thesis by (rule exI)
    next
      case (Response status body)
      show ?thesis
      proof (cases "status \<noteq> 200 \<or> decodeIssues env body = None
                    \<or> length (the (decodeIssues env body)) < perPage")
        case True
        with step(2) None Response have "snd y = ?log'"
          by (auto simp: Let_def split: if_splits option.splits)
        with one have "snd y = log @ map (\<lambda>j. Do (listRequest repo token j)) [page ..< page + Suc 0]"
          by simp
        then show ?thesis by (rule exI)
      next
        case False
        then obtain issues where dec: "decodeIssues env body = Some issues"
          and st: "status = 200" and full: "\<not> length issues < perPage"
          by auto
        with step(2) None Response have
          "f env repo token (allIssues @ filteredIssues issues) (page + 1) ?log' = Some y"
          by (simp add: Let_def)
        from step(1) [OF this] obtain k where
          "snd y = ?log' @ map (\<lambda>j. Do (listRequest repo token j)) [page + 1 ..< page + 1 + k]"
          by blast
        then have "snd y = log @ map (\<lambda>j. Do (listRequest repo token j)) [page ..< page + (Suc k)]"
          by (simp only: gets_shift_plus)
        then show ?thesis by (rule exI)
      qed
    qed
  qed
qed

lemma fetchLoop_returns_serves:
  assumes "fetchLoop env repo token acc page log = Some y"
  shows "\<forall>issues. fst y = Inr issues \<longrightarrow>
           (\<exists>ps. serves env repo token (ncalls log) page ps \<and> ps \<noteq> [] \<and>
                 (\<forall>p \<in> set (butlast ps). perPage \<le> length p) \<and>
                 length (last ps) < perPage)"
  using assms
proof (induct rule: fetchLoop.raw_induct [rotated 1, consumes 1, case_names step])
  case (step f env repo token allIssues page log y)
  show ?case
  proof (intro allI impI)
    fix issues
    assume ok: "fst y = Inr issues"
    from step(2) ok obtain body p where
      url: "urlError env (listURL repo page) = None" and
      resp: "httpDo env (ncalls log) (listRequest repo token page) = Response 200 body" and
      dec: "decodeIssues env body = Some p"
      by (auto simp: Let_def split: option.splits http_result.splits if_splits)
    let ?log' = "log @ [Do (listRequest repo token page)]"
    have calls: "ncalls ?log' = Suc (ncalls log)"
      by (simp add: ncalls_def requests_append)
    show "\<exists>ps. serves env repo token (ncalls log) page ps \<and> ps \<noteq> [] \<and>
                 (\<forall>p \<in> set (butlast ps). perPage \<le> length p) \<and>
                 length (last ps) < perPage"
    proof (cases "length p < perPage")
      case True
      with url resp dec show ?thesis
        by (intro exI [of _ "[p]"]) simp
    next
      case False
      with step(2) url resp dec have
        "f env repo token (allIssues @ filteredIssues p) (page + 1) ?log' = Some y"
        by (simp add: Let_def)
      from step(1) [OF this] ok obtain ps where
        ps: "serves env repo token (Suc (ncalls log)) (Suc page) ps" "ps \<noteq> []"
          "\<forall>p \<in> set (butlast ps). perPage \<le> length p" "length (last ps) < perPage"
        by (auto simp: calls)
      with url resp dec False show ?thesis
        by (intro exI [of _ "p # ps"]) simp
    qed
  qed
qed

text \<open>
  Against a source that keeps serving full pages the loop never returns: a fetch that
  returns has met a request that was not answered with a page of at least \<open>perPage\<close>
  records.
\<close>

lemma fetchLoop_full_pages:
  assumes "fetchLoop env repo token acc page log = Some y"
  shows "\<exists>j. \<not> (urlError env (listURL repo (page + j)) = None \<and>
               (\<exists>body p. httpDo env (ncalls log + j) (listRequest repo token (page + j))
                           = Response 200 body \<and>
                         decodeIssues env body = Some p \<and> perPage \<le> length p))"
  using assms
proof (induct rule: fetchLoop.raw_induct [rotated 1, consumes 1, case_names step])
  case (step f env repo token allIssues page log y)
  show ?case
  proof (rule ccontr)
    assume "\<not> ?thesis"
    then have full: "\<And>j. urlError env (listURL repo (page + j)) = None \<and>
               (\<exists>body p. httpDo env (ncalls log + j) (listRequest repo token (page + j))
                           = Response 200 body \<and>
                         decodeIssues env body = Some p \<and> perPage \<le> length p)"
      by blast
    from full [of 0] obtain body p where
      url: "urlError env (listURL repo page) = None" and
      resp: "httpDo env (ncalls log) (listRequest repo token page) = Response 200 body" and
      dec: "decodeIssues env body = Some p" and big: "perPage \<le> length p"
      by auto
    let ?log' = "log @ [Do (listRequest repo token page)]"
    have calls: "ncalls ?log' = Suc (ncalls log)"
      by (simp add: ncalls_def requests_append)
    from step(2) url resp dec big have
      "f env repo token (allIssues @ filteredIssues p) (page + 1) ?log' = Some y"
      by (simp add: Let_def)
    from step(1) [OF this] obtain j where
      "\<not> (urlError env (listURL repo (page + 1 + j)) = None \<and>
               (\<exists>body p. httpDo env (ncalls ?log' + j) (listRequest repo token (page + 1 + j))
                           = Response 200 body \<and>
                         decodeIssues env body = Some p \<and> perPage \<le> length p))"
      by blast
    with full [of "Suc j"] show False by (simp add: calls)
  qed
qed

lemma fetchOpenIssues_diverges:
  assumes "\<forall>j. urlError env (listURL repo (1 + j)) = None \<and>
               (\<exists>body p. httpDo env (ncalls log + j) (listRequest repo token (1 + j))
                           = Response 200 body \<and>
                         decodeIssues env body = Some p \<and> perPage \<le> length p)"
  shows "fetchOpenIssues env repo token log = None"
proof (cases "fetchOpenIssues env repo token log")
  case None
  then show ?thesis .
next
  case (Some y)
  from fetchLoop_full_pages [OF Some [unfolded fetchOpenIssues_def]] assms
  show ?thesis by blast
qed

text \<open>The pages of a paginated record list, and one iteration of the fetch loop.\<close>

lemma paginate_not_Nil: "paginate recs \<noteq> []"
  by (simp add: paginate_def)

lemma length_paginate: "length (paginate recs) = Suc (length recs div perPage)"
  by (simp add: paginate_def)

lemma paginate_full:
  assumes "p \<in> set (butlast (paginate recs))"
  shows "length p = perPage"
proof -
  have "butlast (paginate recs)
          = map (\<lambda>j. take perPage (drop (j * perPage) recs)) [0 ..< length recs div perPage]"
    by (simp add: paginate_def)
  with assms obtain j where j: "j < length recs div perPage"
    and p: "p = take perPage (drop (j * perPage) recs)"
    by auto
  from j have "Suc j \<le> length recs div perPage" by simp
  then have "Suc j * perPage \<le> length recs div perPage * perPage"
    by (rule mult_le_mono1)
  also have "\<dots> \<le> length recs" by (rule div_times_less_eq_dividend)
  finally have "Suc j * perPage \<le> length recs" .
  then show ?thesis by (simp add: p)
qed

lemma paginate_last: "length (last (paginate recs)) = length recs mod perPage"
proof -
  have "last (paginate recs)
          = take perPage (drop (length recs div perPage * perPage) recs)"
    by (simp add: paginate_def)
  then show ?thesis
    by (simp add: perPage_def minus_div_mult_eq_mod)
qed

lemma paginate_last_short: "length (last (paginate recs)) < perPage"
  by (simp add: paginate_last perPage_def)

lemma fetchLoop_page:
  assumes "urlError env (listURL repo page) = None"
    and "httpDo env (ncalls log) (listRequest repo token page) = Response 200 body"
    and "decodeIssues env body = Some records"
  shows "fetchLoop env repo token acc page log
           = (if length records < perPage
              then Some (Inr (acc @ filteredIssues records),
                         log @ [Do (listRequest repo token page)])
              else fetchLoop env repo token (acc @ filteredIssues records) (page + 1)
                     (log @ [Do (listRequest repo token page)]))"
  using assms by (subst fetchLoop.simps) (simp add: Let_def)

subsection \<open>Whole runs\<close>


lemma count_list_last: "bs \<noteq> [] \<Longrightarrow> last bs \<Longrightarrow> 0 < count_list bs True"
  by (induction bs) (auto split: if_splits)

lemma count_list_butlast:
  "count_list (butlast bs) True
     = count_list bs True - (if bs \<noteq> [] \<and> last bs then 1 else 0)"
proof (induction bs)
  case Nil
  show ?case by simp
next
  case (Cons b bs)
  then show ?case using count_list_last [of bs] by auto
qed

lemma gets_projections:
  "announced (map (\<lambda>j. Do (listRequest repo token j)) js) = []"
  "sleeps (map (\<lambda>j. Do (listRequest repo token j)) js) = []"
  "posts (map (\<lambda>j. Do (listRequest repo token j)) js) = []"
  "requests (map (\<lambda>j. Do (listRequest repo token j)) js) = map (listRequest repo token) js"
  by (induction js) (simp_all add: posts_def listRequest_def)

lemma fetch_trace:
  assumes "fetchOpenIssues env repo token [Stdout (MsgFetching repo)] = Some (r, log0)"
  shows "announced log0 = []" "sleeps log0 = []" "posts log0 = []"
    "\<forall>e \<in> set log0. \<not> isSleep e" "log0 \<noteq> []" "hd log0 = Stdout (MsgFetching repo)"
proof -
  from fetchLoop_log [OF assms [unfolded fetchOpenIssues_def]] obtain k where
    log0: "log0 = [Stdout (MsgFetching repo)]
                  @ map (\<lambda>j. Do (listRequest repo token j)) [1 ..< 1 + k]"
    by auto
  show "announced log0 = []" "sleeps log0 = []" "posts log0 = []"
    by (simp_all only: log0 announced_append sleeps_append posts_append gets_projections)
       (simp_all add: posts_def)
  show "\<forall>e \<in> set log0. \<not> isSleep e" by (auto simp: log0)
  show "log0 \<noteq> []" by (simp add: log0)
  show "hd log0 = Stdout (MsgFetching repo)" by (simp add: log0)
qed

lemma run_copy:
  assumes "fetchOpenIssues env src token [Stdout (MsgFetching src)] = Some (Inr issues, log0)"
  shows "run env src tgt token False
           = Some (None,
               snd (snd (copyLoop env tgt token (length issues) 0 issues 0 0
                     (log0 @ [Stdout (MsgFound (length issues)), Stdout (MsgCopyingTo tgt)])))
               @ [Stdout MsgSummary,
                  Stdout (MsgSuccessfullyCopied
                    (fst (copyLoop env tgt token (length issues) 0 issues 0 0
                     (log0 @ [Stdout (MsgFound (length issues)), Stdout (MsgCopyingTo tgt)])))),
                  Stdout (MsgFailedCount
                    (fst (snd (copyLoop env tgt token (length issues) 0 issues 0 0
                     (log0 @ [Stdout (MsgFound (length issues)), Stdout (MsgCopyingTo tgt)]))))),
                  Stdout (MsgTotal (length issues))])"
  using assms by (simp add: run_def Let_def split: prod.splits)

lemma run_dry:
  assumes "fetchOpenIssues env src token [Stdout (MsgFetching src)] = Some (Inr issues, log0)"
  shows "run env src tgt token True
           = Some (None, dryRunLoop issues
                (log0 @ [Stdout (MsgFound (length issues)), Stdout MsgDryRunHeader]))"
  using assms by (simp add: run_def Let_def)

lemma run_fetch_failed:
  assumes "fetchOpenIssues env src token [Stdout (MsgFetching src)] = Some (Inl e, log0)"
  shows "run env src tgt token dryRun = Some (Some (FetchError e), log0)"
  using assms by (simp add: run_def)

lemma dryRunLoop_requests: "requests (dryRunLoop issues log) = requests log"
  by (induction issues arbitrary: log) (simp_all add: requests_append)

lemma dryRunLoop_posts: "posts (dryRunLoop issues log) = posts log"
  by (simp add: posts_def dryRunLoop_requests)

subsection \<open>Where the delays stand\<close>

lemma copyLoop_extends:
  "\<exists>new. snd (snd (copyLoop env repo token n i issues s f log)) = log @ new"
proof (induction issues arbitrary: i s f log)
  case Nil
  show ?case by simp
next
  case (Cons issue rest)
  from copyLoop_step [of env repo token n i issue rest s f log]
  obtain mid where
    eq: "copyLoop env repo token n i (issue # rest) s f log
           = copyLoop env repo token n (Suc i) rest
               (if created env repo token (ncalls log) issue then Suc s else s)
               (if created env repo token (ncalls log) issue then f else Suc f)
               (log @ Stdout (MsgCopying (Suc i) n (Number issue) (Title issue)) # mid)"
    by blast
  from Cons.IH [of "Suc i" "if created env repo token (ncalls log) issue then Suc s else s"
      "if created env repo token (ncalls log) issue then f else Suc f"
      "log @ Stdout (MsgCopying (Suc i) n (Number issue) (Title issue)) # mid"]
  obtain new where
    "snd (snd (copyLoop env repo token n (Suc i) rest
               (if created env repo token (ncalls log) issue then Suc s else s)
               (if created env repo token (ncalls log) issue then f else Suc f)
               (log @ Stdout (MsgCopying (Suc i) n (Number issue) (Title issue)) # mid)))
     = (log @ Stdout (MsgCopying (Suc i) n (Number issue) (Title issue)) # mid) @ new"
    by blast
  then have "snd (snd (copyLoop env repo token n i (issue # rest) s f log))
     = log @ (Stdout (MsgCopying (Suc i) n (Number issue) (Title issue)) # mid @ new)"
    by (simp only: eq) simp
  then show ?case by (rule exI)
qed

lemma run_returns:
  assumes "fetchOpenIssues env src token [Stdout (MsgFetching src)] = Some (Inr issues, log0)"
  shows "run env src tgt token False = Some (None, traceOf (run env src tgt token False))"
  by (simp add: run_copy [OF assms])

lemma run_sleeps:
  assumes "fetchOpenIssues env src token [Stdout (MsgFetching src)] = Some (Inr issues, log0)"
  shows "sleeps (traceOf (run env src tgt token False))
           = replicate
               (count_list (butlast (outcomes env tgt token (ncalls log0) issues)) True) 1"
proof -
  let ?log = "log0 @ [Stdout (MsgFound (length issues)), Stdout (MsgCopyingTo tgt)]"
  have calls: "ncalls ?log = ncalls log0"
    by (simp add: ncalls_def requests_append)
  have "sleeps (snd (snd (copyLoop env tgt token (length issues) 0 issues 0 0 ?log)))
          = replicate (count_list (butlast (outcomes env tgt token (ncalls log0) issues)) True) 1"
    using copyLoop_sleeps [of 0 issues "length issues" env tgt token 0 0 ?log]
      fetch_trace(2) [OF assms]
    by (simp add: calls sleeps_append)
  then show ?thesis
    by (simp add: run_copy [OF assms] sleeps_append)
qed

lemma run_spaced:
  assumes "fetchOpenIssues env src token [Stdout (MsgFetching src)] = Some (Inr issues, log0)"
  shows "successively spaced (traceOf (run env src tgt token False))"
    and "\<not> isSleep (hd (traceOf (run env src tgt token False)))"
    and "\<not> isSleep (last (traceOf (run env src tgt token False)))"
proof -
  let ?log = "log0 @ [Stdout (MsgFound (length issues)), Stdout (MsgCopyingTo tgt)]"
  let ?L = "snd (snd (copyLoop env tgt token (length issues) 0 issues 0 0 ?log))"
  let ?sum = "[Stdout MsgSummary,
               Stdout (MsgSuccessfullyCopied
                 (fst (copyLoop env tgt token (length issues) 0 issues 0 0 ?log))),
               Stdout (MsgFailedCount
                 (fst (snd (copyLoop env tgt token (length issues) 0 issues 0 0 ?log)))),
               Stdout (MsgTotal (length issues))]"
  have tr: "traceOf (run env src tgt token False) = ?L @ ?sum"
    by (simp add: run_copy [OF assms])
  have start: "successively spaced ?log"
    using fetch_trace(4) [OF assms] by (intro successively_no_sleep) auto
  have "issues = [] \<longrightarrow> ?log = [] \<or> \<not> isSleep (last ?log)" by simp
  from copyLoop_spaced [where i = 0 and issues = issues and n = "length issues"
      and log = ?log and env = env and repo = tgt and token = token and s = 0 and f = 0,
      OF _ start this]
  have sp: "successively spaced ?L" and lst: "?L = [] \<or> \<not> isSleep (last ?L)"
    by simp_all
  from copyLoop_extends [of env tgt token "length issues" 0 issues 0 0 ?log]
  obtain new where ext: "?L = ?log @ new" by blast
  have "successively spaced ?sum" by (simp add: spaced_def)
  with sp lst show "successively spaced (traceOf (run env src tgt token False))"
    by (simp only: tr successively_append_iff) (auto simp: spaced_def)
  show "\<not> isSleep (hd (traceOf (run env src tgt token False)))"
    using fetch_trace(5,6) [OF assms] by (simp add: tr ext)
  show "\<not> isSleep (last (traceOf (run env src tgt token False)))"
    by (simp add: tr)
qed

lemma no_sleep_before_created:
  "successively spaced xs \<Longrightarrow> xs = [] \<or> \<not> isSleep (hd xs) \<Longrightarrow>
   sleeps (takeWhile (\<lambda>e. \<not> isCreated e) xs) = []"
proof (induction xs)
  case Nil
  show ?case by simp
next
  case (Cons x xs)
  show ?case
  proof (cases "isCreated x")
    case True
    then show ?thesis by simp
  next
    case False
    from Cons.prems have x: "\<not> isSleep x" by simp
    from Cons.prems False have "successively spaced xs" "xs = [] \<or> \<not> isSleep (hd xs)"
      by (auto simp: successively_Cons spaced_def)
    from Cons.IH [OF this] False x show ?thesis
      by (cases x) simp_all
  qed
qed

lemma isFailed_not_isCreated: "isFailed e \<Longrightarrow> \<not> isCreated e"
  by (cases e rule: isFailed.cases) simp_all

subsection \<open>The example runs\<close>

lemma example_fetch5:
  "fetchOpenIssues
     (scripted [Response 200 ''iiiii'', Response 201 ''ok'', Response 500 ''no'',
                Response 201 ''ok'', Response 500 [], Response 201 ''ok''])
     ''src'' ''tok'' [Stdout (MsgFetching ''src'')]
   = Some (Inr [exampleIssue, exampleIssue, exampleIssue, exampleIssue, exampleIssue],
           [Stdout (MsgFetching ''src''), Do (listRequest ''src'' ''tok'' 1)])"
  by (simp add: fetchOpenIssues_def fetchLoop.simps scripted_def ncalls_def perPage_def
        exampleDecodeIssues_def filteredIssues_def isPullRequest_def exampleIssue_def)

lemma example_fetch2:
  "fetchOpenIssues (scripted [Response 200 ''ii'', Response 201 ''ok'', Response 500 ''no''])
     ''src'' ''tok'' [Stdout (MsgFetching ''src'')]
   = Some (Inr [exampleIssue, exampleIssue],
           [Stdout (MsgFetching ''src''), Do (listRequest ''src'' ''tok'' 1)])"
  by (simp add: fetchOpenIssues_def fetchLoop.simps scripted_def ncalls_def perPage_def
        exampleDecodeIssues_def filteredIssues_def isPullRequest_def exampleIssue_def)

lemma example_fetch2_ok:
  "fetchOpenIssues (scripted [Response 200 ''ii'', Response 201 ''ok'', Response 201 ''ok''])
     ''src'' ''tok'' [Stdout (MsgFetching ''src'')]
   = Some (Inr [exampleIssue, exampleIssue],
           [Stdout (MsgFetching ''src''), Do (listRequest ''src'' ''tok'' 1)])"
  by (simp add: fetchOpenIssues_def fetchLoop.simps scripted_def ncalls_def perPage_def
        exampleDecodeIssues_def filteredIssues_def isPullRequest_def exampleIssue_def)

lemma example_fetch3:
  "fetchOpenIssues (scripted [Response 200 ''ipi''])
     ''src'' ''tok'' [Stdout (MsgFetching ''src'')]
   = Some (Inr [exampleIssue, exampleIssue],
           [Stdout (MsgFetching ''src''), Do (listRequest ''src'' ''tok'' 1)])"
  by (simp add: fetchOpenIssues_def fetchLoop.simps scripted_def ncalls_def perPage_def
        exampleDecodeIssues_def filteredIssues_def isPullRequest_def exampleIssue_def
        examplePull_def)

lemma example_serves_exact:
  "serves (scripted [Response 200 (replicate 100 CHR ''i''), Response 200 []])
     ''src'' ''tok'' (ncalls []) 1 [replicate 100 exampleIssue, []]"
  by (simp add: scripted_def exampleDecodeIssues_def list_all_iff ncalls_def)

lemma example_serves_short:
  "serves (scripted [Response 200 (replicate 100 CHR ''i''), Response 200 ''ipi''])
     ''src'' ''tok'' (ncalls []) 1
     [replicate 100 exampleIssue, [exampleIssue, examplePull, exampleIssue]]"
  by (simp add: scripted_def exampleDecodeIssues_def list_all_iff ncalls_def)

lemma example_fetch_404:
  "fetchOpenIssues (scripted [Response 404 ''Not Found''])
     ''src'' ''tok'' [Stdout (MsgFetching ''src'')]
   = Some (Inl (StatusError 404 ''Not Found''),
           [Stdout (MsgFetching ''src''), Do (listRequest ''src'' ''tok'' 1)])"
  by (simp add: fetchOpenIssues_def fetchLoop.simps scripted_def ncalls_def)

lemma example_serves_200:
  "serves (scripted [Response 200 (replicate 100 CHR ''i''),
                     Response 200 (replicate 100 CHR ''i''), Response 200 []])
     ''src'' ''tok'' (ncalls []) 1 (paginate (replicate 200 exampleIssue))"
  by (simp add: paginate_def perPage_def upt_rec scripted_def exampleDecodeIssues_def
        list_all_iff ncalls_def)

section \<open>The claims\<close>

text \<open>
  Claim C1.  In a pass that is not a dry run, a failed creation never aborts the batch.
  Whenever the fetch returns the issues \<open>issues\<close>, \<open>run\<close> returns \<open>nil\<close>; every
  issue is announced once, in fetch order, with its position and the total; when the URL
  of the target can be built, one POST is sent for each issue, in fetch order; and the
  summary reports as succeeded the number of creations the target accepted, as failed
  the number of the others, and as total the number of fetched issues.
\<close>

theorem partial_failure_no_abort:
  assumes "fetchOpenIssues env src token [Stdout (MsgFetching src)] = Some (Inr issues, log0)"
  shows "\<exists>L. run env src tgt token False
               = Some (None,
                   L @ [Stdout MsgSummary,
                        Stdout (MsgSuccessfullyCopied
                          (count_list (outcomes env tgt token (ncalls log0) issues) True)),
                        Stdout (MsgFailedCount
                          (count_list (outcomes env tgt token (ncalls log0) issues) False)),
                        Stdout (MsgTotal (length issues))])
           \<and> announced L
               = map (\<lambda>(j, issue). (Suc j, length issues, Number issue, Title issue))
                   (enumerate 0 issues)
           \<and> posts L = (if urlError env (createURL tgt) = None
                         then map (createRequest tgt token) issues else [])"
proof -
  let ?log = "log0 @ [Stdout (MsgFound (length issues)), Stdout (MsgCopyingTo tgt)]"
  let ?L = "snd (snd (copyLoop env tgt token (length issues) 0 issues 0 0 ?log))"
  have calls: "ncalls ?log = ncalls log0"
    by (simp add: ncalls_def requests_append)
  have p: "filter (\<lambda>r. http_Method r = ''POST'') (map (createRequest tgt token) issues)
          = map (createRequest tgt token) issues"
    by (induction issues) (simp_all add: createRequest_def)
  have "announced ?L
          = map (\<lambda>(j, issue). (Suc j, length issues, Number issue, Title issue))
              (enumerate 0 issues)"
    by (simp add: copyLoop_announced announced_append fetch_trace(1) [OF assms])
  moreover have "posts ?L = (if urlError env (createURL tgt) = None
                         then map (createRequest tgt token) issues else [])"
    using fetch_trace(3) [OF assms] p
    by (simp add: posts_def copyLoop_requests requests_append)
  ultimately show ?thesis
    using copyLoop_counts [of env tgt token "length issues" 0 issues 0 0 ?log]
    by (intro exI [of _ ?L]) (simp add: run_copy [OF assms] calls)
qed

text \<open>
  The example of the specification: five fetched issues, the creations of the second and
  the fourth answered with status 500.
\<close>

theorem partial_failure_no_abort_witness:
  "\<exists>L. run (scripted [Response 200 ''iiiii'', Response 201 ''ok'', Response 500 ''no'',
                      Response 201 ''ok'', Response 500 [], Response 201 ''ok''])
          ''src'' ''tgt'' ''tok'' False
        = Some (None, L @ [Stdout MsgSummary, Stdout (MsgSuccessfullyCopied 3),
                           Stdout (MsgFailedCount 2), Stdout (MsgTotal 5)])
      \<and> map fst (announced L) = [1, 2, 3, 4, 5]
      \<and> length (posts L) = 5"
  using partial_failure_no_abort [OF example_fetch5, of "''tgt''"]
  by (auto simp: created_def scripted_def ncalls_def exampleDecodeCreated_def
        enumerate_eq_zip)



text \<open>
  Claim C3.  The page size is 100.  On a page of at most 100 raw records, counted before
  filtering, the fetch loop goes on to the next page exactly when the page holds 100
  records, and returns otherwise.  When the source serves full pages followed by a page
  that is not full, the fetch returns after requesting exactly these pages, in order: it
  stops at the first short page.  When the source holds a list of records and serves
  it in pages of 100, the fetch returns after one request more than the number of full
  pages, and when the number of records is a multiple of 100 the last request is
  answered by an empty page.
\<close>

theorem fetch_pagination:
  "perPage = 100
   \<and> (urlError env (listURL repo page) = None \<and>
       httpDo env (ncalls log) (listRequest repo token page) = Response 200 body \<and>
       decodeIssues env body = Some records \<and> length records \<le> perPage \<longrightarrow>
       fetchLoop env repo token acc page log
         = (if length records = perPage
            then fetchLoop env repo token (acc @ filteredIssues records) (page + 1)
                   (log @ [Do (listRequest repo token page)])
            else Some (Inr (acc @ filteredIssues records),
                       log @ [Do (listRequest repo token page)])))
   \<and> (serves env repo token (ncalls log) 1 ps \<and> ps \<noteq> [] \<and>
       (\<forall>p \<in> set (butlast ps). length p = perPage) \<and> length (last ps) < perPage \<longrightarrow>
       (\<exists>issues. fetchOpenIssues env repo token log
           = Some (Inr issues,
                   log @ map (\<lambda>page. Do (listRequest repo token page))
                           [1 ..< Suc (length ps)])))
   \<and> (serves env repo token (ncalls log) 1 (paginate recs) \<longrightarrow>
       (\<exists>issues. fetchOpenIssues env repo token log
           = Some (Inr issues,
                   log @ map (\<lambda>page. Do (listRequest repo token page))
                           [1 ..< length recs div perPage + 2])) \<and>
       (perPage dvd length recs \<longrightarrow> last (paginate recs) = []))"
proof (intro conjI impI)
  show "perPage = 100" by (simp add: perPage_def)
next
  assume "urlError env (listURL repo page) = None \<and>
       httpDo env (ncalls log) (listRequest repo token page) = Response 200 body \<and>
       decodeIssues env body = Some records \<and> length records \<le> perPage"
  then show "fetchLoop env repo token acc page log
         = (if length records = perPage
            then fetchLoop env repo token (acc @ filteredIssues records) (page + 1)
                   (log @ [Do (listRequest repo token page)])
            else Some (Inr (acc @ filteredIssues records),
                       log @ [Do (listRequest repo token page)]))"
    using fetchLoop_page [of env repo page log token body records acc] by auto
next
  assume "serves env repo token (ncalls log) 1 ps \<and> ps \<noteq> [] \<and>
       (\<forall>p \<in> set (butlast ps). length p = perPage) \<and> length (last ps) < perPage"
  then show "\<exists>issues. fetchOpenIssues env repo token log
           = Some (Inr issues,
                   log @ map (\<lambda>page. Do (listRequest repo token page))
                           [1 ..< Suc (length ps)])"
    using fetchLoop_serves [of env repo token log 1 ps "[]"]
    by (simp add: fetchOpenIssues_def)
next
  assume "serves env repo token (ncalls log) 1 (paginate recs)"
  from fetchLoop_serves [OF this paginate_not_Nil, of "[]"]
  show "\<exists>issues. fetchOpenIssues env repo token log
           = Some (Inr issues,
                   log @ map (\<lambda>page. Do (listRequest repo token page))
                           [1 ..< length recs div perPage + 2])"
    by (simp add: fetchOpenIssues_def paginate_full paginate_last_short length_paginate)
next
  assume "perPage dvd length recs"
  then have "length (last (paginate recs)) = 0"
    by (simp add: paginate_last)
  then show "last (paginate recs) = []" by simp
qed

text \<open>
  One full page followed by an empty page; one full page followed by a page of three
  records; 200 records served as two full pages and an empty one.
\<close>

theorem fetch_pagination_witness:
  "(\<exists>issues. fetchOpenIssues
       (scripted [Response 200 (replicate 100 CHR ''i''), Response 200 []]) ''src'' ''tok'' []
      = Some (Inr issues, [Do (listRequest ''src'' ''tok'' 1), Do (listRequest ''src'' ''tok'' 2)]))
   \<and> (\<exists>issues. fetchOpenIssues
       (scripted [Response 200 (replicate 100 CHR ''i''), Response 200 ''ipi'']) ''src'' ''tok'' []
      = Some (Inr issues, [Do (listRequest ''src'' ''tok'' 1), Do (listRequest ''src'' ''tok'' 2)]))
   \<and> (\<exists>issues. fetchOpenIssues
       (scripted [Response 200 (replicate 100 CHR ''i''),
                  Response 200 (replicate 100 CHR ''i''), Response 200 []]) ''src'' ''tok'' []
      = Some (Inr issues, [Do (listRequest ''src'' ''tok'' 1), Do (listRequest ''src'' ''tok'' 2),
                           Do (listRequest ''src'' ''tok'' 3)]))
   \<and> last (paginate (replicate 200 exampleIssue)) = []"
proof (intro conjI)
  note pages = fetch_pagination [THEN conjunct2, THEN conjunct2, THEN conjunct1, rule_format]
  note total = fetch_pagination [THEN conjunct2, THEN conjunct2, THEN conjunct2, rule_format]
  show "\<exists>issues. fetchOpenIssues
       (scripted [Response 200 (replicate 100 CHR ''i''), Response 200 []]) ''src'' ''tok'' []
      = Some (Inr issues, [Do (listRequest ''src'' ''tok'' 1), Do (listRequest ''src'' ''tok'' 2)])"
    using pages [OF conjI [OF example_serves_exact]]
    by (simp add: perPage_def upt_rec numeral_2_eq_2)
  show "\<exists>issues. fetchOpenIssues
       (scripted [Response 200 (replicate 100 CHR ''i''), Response 200 ''ipi'']) ''src'' ''tok'' []
      = Some (Inr issues, [Do (listRequest ''src'' ''tok'' 1), Do (listRequest ''src'' ''tok'' 2)])"
    using pages [OF conjI [OF example_serves_short]]
    by (simp add: perPage_def upt_rec numeral_2_eq_2)
  show "\<exists>issues. fetchOpenIssues
       (scripted [Response 200 (replicate 100 CHR ''i''),
                  Response 200 (replicate 100 CHR ''i''), Response 200 []]) ''src'' ''tok'' []
      = Some (Inr issues, [Do (listRequest ''src'' ''tok'' 1), Do (listRequest ''src'' ''tok'' 2),
                           Do (listRequest ''src'' ''tok'' 3)])"
    using total [THEN conjunct1, OF example_serves_200]
    by (simp add: perPage_def upt_rec numeral_2_eq_2 numeral_3_eq_3)
  show "last (paginate (replicate 200 exampleIssue)) = []"
    using total [THEN conjunct2, rule_format, OF example_serves_200]
    by (simp add: perPage_def)
qed

text \<open>
  Claim C4.  When the source serves the pages \<open>ps\<close> (all but the last with at least
  100 records, the last with fewer), the fetch returns the records of all pages, in the
  order received, without those whose \<open>html_url\<close> contains \<open>/pull/\<close>; and every
  fetch that returns issues returns exactly that for the pages it requested, so the
  number of returned issues is the number of raw records of all pages minus the number
  of those with a pull-request URL.
\<close>

theorem fetch_result:
  "(serves env repo token (ncalls log) 1 ps \<and> ps \<noteq> [] \<and>
    (\<forall>p \<in> set (butlast ps). perPage \<le> length p) \<and> length (last ps) < perPage \<longrightarrow>
      (\<exists>L. fetchOpenIssues env repo token log
             = Some (Inr (filter (\<lambda>issue. \<not> isPullRequest issue) (concat ps)), L)))
   \<and> (fetchOpenIssues env repo token log = Some (Inr issues, L) \<longrightarrow>
      (\<exists>ps. serves env repo token (ncalls log) 1 ps \<and>
            L = log @ map (\<lambda>page. Do (listRequest repo token page)) [1 ..< Suc (length ps)] \<and>
            issues = filter (\<lambda>issue. \<not> isPullRequest issue) (concat ps) \<and>
            length issues = length (concat ps) - length (filter isPullRequest (concat ps))))"
proof (intro conjI impI)
  assume "serves env repo token (ncalls log) 1 ps \<and> ps \<noteq> [] \<and>
    (\<forall>p \<in> set (butlast ps). perPage \<le> length p) \<and> length (last ps) < perPage"
  then show "\<exists>L. fetchOpenIssues env repo token log
             = Some (Inr (filter (\<lambda>issue. \<not> isPullRequest issue) (concat ps)), L)"
    using fetchLoop_serves [of env repo token log 1 ps "[]"]
    by (simp add: fetchOpenIssues_def filteredIssues_def)
next
  assume ret: "fetchOpenIssues env repo token log = Some (Inr issues, L)"
  from fetchLoop_returns_serves [OF ret [unfolded fetchOpenIssues_def]]
  obtain ps where ps: "serves env repo token (ncalls log) 1 ps" "ps \<noteq> []"
      "\<forall>p \<in> set (butlast ps). perPage \<le> length p" "length (last ps) < perPage"
    by auto
  from fetchLoop_serves [OF ps, of "[]"] ret
  have L: "L = log @ map (\<lambda>page. Do (listRequest repo token page)) [1 ..< Suc (length ps)]"
    and iss: "issues = filter (\<lambda>issue. \<not> isPullRequest issue) (concat ps)"
    by (simp_all add: fetchOpenIssues_def filteredIssues_def)
  have "length issues = length (concat ps) - length (filter isPullRequest (concat ps))"
    using sum_length_filter_compl [of isPullRequest "concat ps"] by (simp add: iss)
  with ps(1) L iss show "\<exists>ps. serves env repo token (ncalls log) 1 ps \<and>
            L = log @ map (\<lambda>page. Do (listRequest repo token page)) [1 ..< Suc (length ps)] \<and>
            issues = filter (\<lambda>issue. \<not> isPullRequest issue) (concat ps) \<and>
            length issues = length (concat ps) - length (filter isPullRequest (concat ps))"
    by blast
qed

text \<open>
  A full page of issues and a page with two issues around a pull request: 103 raw
  records, 102 returned issues, in the order received.
\<close>

theorem fetch_result_witness:
  "(\<exists>L. fetchOpenIssues
       (scripted [Response 200 (replicate 100 CHR ''i''), Response 200 ''ipi'']) ''src'' ''tok'' []
      = Some (Inr (replicate 100 exampleIssue @ [exampleIssue, exampleIssue]), L))
   \<and> length (replicate 100 exampleIssue @ [exampleIssue, exampleIssue]) = 103 - 1"
  using fetch_result [THEN conjunct1, rule_format, OF conjI [OF example_serves_short]]
  by (simp add: perPage_def isPullRequest_def exampleIssue_def examplePull_def)

text \<open>
  Claim C5.  The body of the creation request is the provenance line with the canonical
  URL of the source issue, then the separator (a blank line, three dashes, a blank
  line), then the body of the source issue, unchanged and possibly empty; the title is
  the title of the source issue; the label names are the names of its labels, in order.
\<close>

theorem request_body_synthesis:
  "req_Body (createReq sourceIssue)
     = (''_Copied from original issue: '' @ HTMLURL sourceIssue @ ''_'')
       @ ([newline, newline] @ ''---'' @ [newline, newline])
       @ Body sourceIssue
   \<and> req_Title (createReq sourceIssue) = Title sourceIssue
   \<and> req_Labels (createReq sourceIssue) = map Name (Labels sourceIssue)"
  by (simp add: createReq_def synthBody_def labelNamesOf_map)

text \<open>
  The example of the specification (URL \<open>https://x/issues/7\<close>, body \<open>hello\<close>), and
  an issue with an empty body and two labels.
\<close>

theorem request_body_synthesis_witness:
  "req_Body (createReq exampleIssue)
     = ''_Copied from original issue: https://x/issues/7_'' @ [newline, newline]
       @ ''---'' @ [newline, newline] @ ''hello''
   \<and> req_Body (createReq examplePull)
     = ''_Copied from original issue: https://x/pull/8_'' @ [newline, newline]
       @ ''---'' @ [newline, newline]
   \<and> req_Labels (createReq examplePull) = [''bug'', ''ui'']"
  using request_body_synthesis [of exampleIssue] request_body_synthesis [of examplePull]
  by (simp add: exampleIssue_def examplePull_def)

text \<open>
  Claim C6, as amended.  In a pass that is not a dry run every delay lasts one second, and
  the number of delays is the number of created issues other than the last fetched one:
  with \<open>N\<close> successful creations it is \<open>N - 1\<close> when the last fetched issue was
  created and \<open>N\<close> when its creation failed (or nothing was fetched).  No delay is
  taken before the first creation is reported.
\<close>

theorem delays_count:
  assumes "fetchOpenIssues env src token [Stdout (MsgFetching src)] = Some (Inr issues, log0)"
  shows "\<exists>L. run env src tgt token False = Some (None, L)
           \<and> sleeps L
               = replicate
                   (count_list (outcomes env tgt token (ncalls log0) issues) True
                    - (if issues \<noteq> [] \<and> last (outcomes env tgt token (ncalls log0) issues)
                       then 1 else 0))
                   1
           \<and> sleeps (takeWhile (\<lambda>e. \<not> isCreated e) L) = []"
proof -
  let ?L = "traceOf (run env src tgt token False)"
  have "sleeps (takeWhile (\<lambda>e. \<not> isCreated e) ?L) = []"
    using run_spaced(1,2) [OF assms, of tgt] by (intro no_sleep_before_created) simp_all
  then show ?thesis
    using run_returns [OF assms, of tgt] run_sleeps [OF assms, of tgt]
    by (intro exI [of _ ?L]) (simp add: count_list_butlast outcomes_Nil_iff)
qed

text \<open>
  Two fetched issues: when the second creation fails there is one creation and one delay;
  when both succeed there are two creations and one delay.
\<close>

theorem delays_count_witness:
  "(\<exists>L. run (scripted [Response 200 ''ii'', Response 201 ''ok'', Response 500 ''no''])
           ''src'' ''tgt'' ''tok'' False = Some (None, L) \<and> sleeps L = [1])
   \<and> (\<exists>L. run (scripted [Response 200 ''ii'', Response 201 ''ok'', Response 201 ''ok''])
           ''src'' ''tgt'' ''tok'' False = Some (None, L) \<and> sleeps L = [1])"
  using delays_count [OF example_fetch2, of "''tgt''"]
    delays_count [OF example_fetch2_ok, of "''tgt''"]
  by (auto simp: created_def scripted_def ncalls_def exampleDecodeCreated_def)

text \<open>
  The claim as first stated (\<open>N\<close> successful creations give \<open>N - 1\<close> delays, none
  after the last creation) fails when the last fetched issue is not created: of two
  issues the first is created and the second rejected, the summary reports one success,
  and one delay was taken.
\<close>

theorem delays_count_counterexample:
  "succeededCounts (traceOf (run (scripted [Response 200 ''ii'', Response 201 ''ok'',
                                            Response 500 ''no''])
                              ''src'' ''tgt'' ''tok'' False)) = [1]
   \<and> sleeps (traceOf (run (scripted [Response 200 ''ii'', Response 201 ''ok'',
                                     Response 500 ''no''])
                        ''src'' ''tgt'' ''tok'' False)) = [1]
   \<and> length (sleeps (traceOf (run (scripted [Response 200 ''ii'', Response 201 ''ok'',
                                             Response 500 ''no''])
                                ''src'' ''tgt'' ''tok'' False)))
       \<noteq> hd (succeededCounts (traceOf (run (scripted [Response 200 ''ii'', Response 201 ''ok'',
                                                     Response 500 ''no''])
                                        ''src'' ''tgt'' ''tok'' False))) - 1"
  by (simp add: run_def example_fetch2)
     (simp add: copyLoop.simps createIssue_def scripted_def ncalls_def
        exampleDecodeCreated_def Let_def)

text \<open>
  Claim C7.  A dry run sends no creation request.  Whenever the fetch returns a list of
  issues, the dry run returns \<open>nil\<close> and the requests of the whole run are those of
  the fetch; and whatever a dry run returns, its trace holds no POST request.  (A run
  whose fetch never returns has no trace; the only requests such a run sends are the
  listing requests of \<open>fetchLoop\<close>.)
\<close>

theorem dry_run_no_post:
  "(\<forall>issues log0.
      fetchOpenIssues env src token [Stdout (MsgFetching src)] = Some (Inr issues, log0) \<longrightarrow>
      (\<exists>L. run env src tgt token True = Some (None, L) \<and> requests L = requests log0))
   \<and> (\<forall>r L. run env src tgt token True = Some (r, L) \<longrightarrow> posts L = [])"
proof (intro conjI allI impI)
  fix issues log0
  assume "fetchOpenIssues env src token [Stdout (MsgFetching src)] = Some (Inr issues, log0)"
  then show "\<exists>L. run env src tgt token True = Some (None, L) \<and> requests L = requests log0"
    by (simp add: run_dry dryRunLoop_requests requests_append)
next
  fix r L
  assume ret: "run env src tgt token True = Some (r, L)"
  show "posts L = []"
  proof (cases "fetchOpenIssues env src token [Stdout (MsgFetching src)]")
    case None
    with ret show ?thesis by (simp add: run_def)
  next
    case (Some res)
    obtain out log0 where res: "res = (out, log0)" by (cases res)
    have p0: "posts log0 = []"
      using Some fetch_trace(3) [of env src token out log0] by (simp add: res)
    show ?thesis
    proof (cases out)
      case (Inl e)
      with Some res ret have "L = log0" by (simp add: run_fetch_failed)
      with p0 show ?thesis by simp
    next
      case (Inr issues)
      with Some res ret have
        "L = dryRunLoop issues (log0 @ [Stdout (MsgFound (length issues)), Stdout MsgDryRunHeader])"
        by (simp add: run_dry)
      with p0 show ?thesis by (simp add: dryRunLoop_posts posts_append) (simp add: posts_def)
    qed
  qed
qed

text \<open>
  A dry run over a page of two issues and one pull request: the only request of the run
  is the listing.
\<close>

theorem dry_run_no_post_witness:
  "\<exists>L. run (scripted [Response 200 ''ipi'']) ''src'' ''tgt'' ''tok'' True = Some (None, L)
       \<and> requests L = [listRequest ''src'' ''tok'' 1] \<and> posts L = []"
proof -
  from dry_run_no_post [of "scripted [Response 200 ''ipi'']" "''src''" "''tok''" "''tgt''"]
  have a: "\<exists>L. run (scripted [Response 200 ''ipi'']) ''src'' ''tgt'' ''tok'' True = Some (None, L)
             \<and> requests L = [listRequest ''src'' ''tok'' 1]"
    and b: "\<forall>r L. run (scripted [Response 200 ''ipi'']) ''src'' ''tgt'' ''tok'' True = Some (r, L)
             \<longrightarrow> posts L = []"
    using example_fetch3 by auto
  from a b show ?thesis by blast
qed

text \<open>
  Claim C8.  Without a credential the process exits with status 1 before any request;
  with a credential and a fetch that returns an error it exits with status 1 after
  printing that error.  With a credential and a fetch that returns the issues, the process
  exits with status 0, as a dry run and as a copy run, whatever number of creations the
  summary reports as failed.  Whenever the process exits, its status is 0 or 1, and it
  is 1 exactly when the credential is empty or the fetch returned an error.
\<close>

theorem exit_status:
  "(token = [] \<longrightarrow>
      main env src tgt token dryRun = Some (1, [Stderr MsgTokenRequired]))
   \<and> (token \<noteq> [] \<and>
       fetchOpenIssues env src token [Stdout (MsgFetching src)] = Some (Inl err, log1) \<longrightarrow>
      main env src tgt token dryRun
        = Some (1, log1 @ [Stderr (MsgError (FetchError err))]))
   \<and> (token \<noteq> [] \<and>
    fetchOpenIssues env src token [Stdout (MsgFetching src)] = Some (Inr issues, log0) \<longrightarrow>
      (\<exists>L. main env src tgt token True = Some (0, L)) \<and>
      (\<exists>L. main env src tgt token False
             = Some (0, L @ [Stdout MsgSummary,
                             Stdout (MsgSuccessfullyCopied
                               (count_list (outcomes env tgt token (ncalls log0) issues) True)),
                             Stdout (MsgFailedCount
                               (count_list (outcomes env tgt token (ncalls log0) issues) False)),
                             Stdout (MsgTotal (length issues))])))
   \<and> (main env src tgt token dryRun = Some (code, L) \<longrightarrow>
        (code = 0 \<or> code = 1) \<and>
        (code = 1 \<longleftrightarrow>
           token = [] \<or>
           (\<exists>e log. fetchOpenIssues env src token [Stdout (MsgFetching src)]
                      = Some (Inl e, log))))"
proof (intro conjI impI)
  assume "token = []"
  then show "main env src tgt token dryRun = Some (1, [Stderr MsgTokenRequired])"
    by (simp add: main_def)
next
  assume "token \<noteq> [] \<and>
       fetchOpenIssues env src token [Stdout (MsgFetching src)] = Some (Inl err, log1)"
  then show "main env src tgt token dryRun
        = Some (1, log1 @ [Stderr (MsgError (FetchError err))])"
    by (simp add: main_def run_fetch_failed)
next
  assume a: "token \<noteq> [] \<and>
    fetchOpenIssues env src token [Stdout (MsgFetching src)] = Some (Inr issues, log0)"
  then show "\<exists>L. main env src tgt token True = Some (0, L)"
    by (simp add: main_def run_dry)
  let ?log = "log0 @ [Stdout (MsgFound (length issues)), Stdout (MsgCopyingTo tgt)]"
  have calls: "ncalls ?log = ncalls log0"
    by (simp add: ncalls_def requests_append)
  from a copyLoop_counts [of env tgt token "length issues" 0 issues 0 0 ?log]
  show "\<exists>L. main env src tgt token False
             = Some (0, L @ [Stdout MsgSummary,
                             Stdout (MsgSuccessfullyCopied
                               (count_list (outcomes env tgt token (ncalls log0) issues) True)),
                             Stdout (MsgFailedCount
                               (count_list (outcomes env tgt token (ncalls log0) issues) False)),
                             Stdout (MsgTotal (length issues))])"
    by (simp add: main_def run_copy calls)
next
  assume m: "main env src tgt token dryRun = Some (code, L)"
  show "code = 0 \<or> code = 1"
    using m by (auto simp: main_def split: if_splits option.splits prod.splits)
  show "code = 1 \<longleftrightarrow>
           token = [] \<or>
           (\<exists>e log. fetchOpenIssues env src token [Stdout (MsgFetching src)]
                      = Some (Inl e, log))"
  proof (cases "token = []")
    case True
    with m show ?thesis by (simp add: main_def)
  next
    case False
    show ?thesis
    proof (cases "fetchOpenIssues env src token [Stdout (MsgFetching src)]")
      case None
      with m False show ?thesis by (simp add: main_def run_def)
    next
      case (Some res)
      obtain out log0 where res: "res = (out, log0)" by (cases res)
      show ?thesis
      proof (cases out)
        case (Inl e)
        with Some res m False show ?thesis
          by (simp add: main_def run_fetch_failed)
      next
        case (Inr issues)
        with Some res m False show ?thesis
          by (cases dryRun) (auto simp: main_def run_dry run_copy)
      qed
    qed
  qed
qed

text \<open>
  Exit status 0 with two failed creations out of five; exit status 1 without a credential;
  exit status 1 when the listing is answered with status 404.
\<close>

theorem exit_status_witness:
  "(\<exists>L. main (scripted [Response 200 ''iiiii'', Response 201 ''ok'', Response 500 ''no'',
                       Response 201 ''ok'', Response 500 [], Response 201 ''ok''])
            ''src'' ''tgt'' ''tok'' False
          = Some (0, L @ [Stdout MsgSummary, Stdout (MsgSuccessfullyCopied 3),
                          Stdout (MsgFailedCount 2), Stdout (MsgTotal 5)]))
   \<and> main (scripted []) ''src'' ''tgt'' [] False = Some (1, [Stderr MsgTokenRequired])
   \<and> main (scripted [Response 404 ''Not Found'']) ''src'' ''tgt'' ''tok'' False
       = Some (1, [Stdout (MsgFetching ''src''), Do (listRequest ''src'' ''tok'' 1),
                   Stderr (MsgError (FetchError (StatusError 404 ''Not Found'')))])"
proof (intro conjI)
  show "\<exists>L. main (scripted [Response 200 ''iiiii'', Response 201 ''ok'', Response 500 ''no'',
                       Response 201 ''ok'', Response 500 [], Response 201 ''ok''])
            ''src'' ''tgt'' ''tok'' False
          = Some (0, L @ [Stdout MsgSummary, Stdout (MsgSuccessfullyCopied 3),
                          Stdout (MsgFailedCount 2), Stdout (MsgTotal 5)])"
    using exit_status [where token = "''tok''" and src = "''src''" and tgt = "''tgt''",
        THEN conjunct2, THEN conjunct2, THEN conjunct1, rule_format,
        OF conjI [OF _ example_fetch5]]
    by (auto simp: created_def scripted_def ncalls_def exampleDecodeCreated_def)
  show "main (scripted []) ''src'' ''tgt'' [] False = Some (1, [Stderr MsgTokenRequired])"
    using exit_status [where token = "[]", THEN conjunct1] by simp
  show "main (scripted [Response 404 ''Not Found'']) ''src'' ''tgt'' ''tok'' False
       = Some (1, [Stdout (MsgFetching ''src''), Do (listRequest ''src'' ''tok'' 1),
                   Stderr (MsgError (FetchError (StatusError 404 ''Not Found'')))])"
    using exit_status [where token = "''tok''" and src = "''src''",
        THEN conjunct2, THEN conjunct1, rule_format, OF conjI [OF _ example_fetch_404]]
    by simp
qed

text \<open>
  Claim C9.  In the trace of a pass that is not a dry run, a delay stands only directly
  after the report of a successful creation and directly before the announcement of the
  next issue, so only after an issue that is not the last fetched one; the event that
  follows the report of a failed creation is never a delay; the trace neither starts nor
  ends with a delay; and the delays are as many as the created issues among all fetched
  issues but the last, whatever the outcome of the last.
\<close>

theorem delay_only_after_created:
  assumes "fetchOpenIssues env src token [Stdout (MsgFetching src)] = Some (Inr issues, log0)"
  shows "\<exists>L. run env src tgt token False = Some (None, L)
           \<and> (\<forall>p. Suc p < length L \<longrightarrow>
                  (isSleep (L ! Suc p) \<longrightarrow> isCreated (L ! p)) \<and>
                  (isFailed (L ! p) \<longrightarrow> \<not> isSleep (L ! Suc p)) \<and>
                  (isSleep (L ! p) \<longrightarrow> isCopying (L ! Suc p)))
           \<and> \<not> isSleep (hd L) \<and> \<not> isSleep (last L)
           \<and> length (sleeps L)
               = count_list (butlast (outcomes env tgt token (ncalls log0) issues)) True"
proof -
  let ?L = "traceOf (run env src tgt token False)"
  from run_spaced(1) [OF assms, of tgt]
  have "\<forall>p. Suc p < length ?L \<longrightarrow> spaced (?L ! p) (?L ! Suc p)"
    by (simp only: successively_nth)
  then have "\<forall>p. Suc p < length ?L \<longrightarrow>
                  (isSleep (?L ! Suc p) \<longrightarrow> isCreated (?L ! p)) \<and>
                  (isFailed (?L ! p) \<longrightarrow> \<not> isSleep (?L ! Suc p)) \<and>
                  (isSleep (?L ! p) \<longrightarrow> isCopying (?L ! Suc p))"
    using isFailed_not_isCreated by (auto simp: spaced_def)
  then show ?thesis
    using run_returns [OF assms, of tgt] run_sleeps [OF assms, of tgt]
      run_spaced(2,3) [OF assms, of tgt]
    by (intro exI [of _ ?L]) simp
qed

text \<open>
  Two fetched issues, the first created and the second rejected: one delay, after the
  first creation.
\<close>

theorem delay_only_after_created_witness:
  "\<exists>L. run (scripted [Response 200 ''ii'', Response 201 ''ok'', Response 500 ''no''])
          ''src'' ''tgt'' ''tok'' False = Some (None, L)
       \<and> length (sleeps L) = 1 \<and> \<not> isSleep (hd L) \<and> \<not> isSleep (last L)"
  using delay_only_after_created [OF example_fetch2, of "''tgt''"]
  by (auto simp: created_def scripted_def ncalls_def exampleDecodeCreated_def)

text \<open>
  Claim C10.  The serialized creation request always has the members \<open>title\<close> and
  \<open>body\<close>; it has no member \<open>labels\<close> when the source issue has no labels, and
  otherwise the member \<open>labels\<close> is the array of the label names in source order.  This
  object is the body of the POST request.
\<close>

theorem labels_omitted_when_empty:
  "marshalCreateIssueRequest (createReq sourceIssue)
     = JObject ([(''title'', JString (Title sourceIssue)),
                 (''body'', JString (synthBody sourceIssue))]
                @ (if Labels sourceIssue = [] then []
                   else [(''labels'',
                          JArray (map (\<lambda>label. JString (Name label)) (Labels sourceIssue)))]))
   \<and> http_Body (createRequest repo token sourceIssue)
       = Some (marshalCreateIssueRequest (createReq sourceIssue))"
  by (simp add: marshalCreateIssueRequest_def createReq_def labelNamesOf_map createRequest_def
        comp_def)

text \<open>An issue without labels, and one with the labels \<open>bug\<close> and \<open>ui\<close>.\<close>

theorem labels_omitted_when_empty_witness:
  "marshalCreateIssueRequest (createReq exampleIssue)
     = JObject [(''title'', JString ''seven''), (''body'', JString (synthBody exampleIssue))]
   \<and> marshalCreateIssueRequest (createReq examplePull)
     = JObject [(''title'', JString ''eight''), (''body'', JString (synthBody examplePull)),
                (''labels'', JArray [JString ''bug'', JString ''ui''])]"
  using labels_omitted_when_empty [of exampleIssue] labels_omitted_when_empty [of examplePull]
  by (simp add: exampleIssue_def examplePull_def)

end
